theory Spec2Isabelle
  imports Complex_Main "HOL-Library.Word"
begin

unbundle bit_operations_syntax

section \<open>Common values: errors and output\<close>

text \<open>
  The generator is sequential Python.  Every \<^verbatim>\<open>raise\<close>, failed \<^verbatim>\<open>assert\<close> and
  out-of-range list access of the source is a value of \<open>error\<close>.  A formatted message
  is kept as the format string of the source together with the arguments of \<^verbatim>\<open>%\<close>.
\<close>

datatype Status = Unavailable | Available | InUse

datatype fmtarg = I int | S string | St Status | F rat

datatype error =
    RuntimeError string "fmtarg list"
  | AssertionError
  | IndexError
  | KeyError
  | NameError
  | ZeroDivisionError

text \<open>
  What the generator writes to its log: \<^verbatim>\<open>print\<close>, \<^verbatim>\<open>print2\<close>, \<^verbatim>\<open>printWarning\<close>
  (non-fatal) and the rendering \<^verbatim>\<open>print(self.state())\<close> of the pool, which is a
  function of the statuses of the slots.
\<close>

datatype event =
    Print string "fmtarg list"
  | Print2 string "fmtarg list"
  | PrintWarning string "fmtarg list"
  | PrintState "Status list"

section \<open>RegisterPool\<close>

record Register =
  status :: Status
  tag :: string

text \<open>
  Register indices and sizes are natural numbers (the source formats them with
  \<^verbatim>\<open>%u\<close>).  The argument \<^verbatim>\<open>preventOverflow\<close> is \<open>None\<close> for the default \<^verbatim>\<open>-1\<close>
  of the source and \<open>Some b\<close> for an explicit truth value.
\<close>

record RegisterPool =
  printRP :: bool
  poolType :: char
  defaultPreventOverflow :: bool
  pool :: "Register list"
  checkOutSize :: "nat \<rightharpoonup> nat"

type_synonym 'a outcome = "(error + 'a) \<times> RegisterPool \<times> event list"

definition RegisterPool_init :: "nat \<Rightarrow> char \<Rightarrow> bool \<Rightarrow> bool \<Rightarrow> RegisterPool" where
  "RegisterPool_init sz ty dpo prp =
     \<lparr> printRP = prp, poolType = ty, defaultPreventOverflow = dpo,
       pool = replicate sz \<lparr> status = Unavailable, tag = ''init'' \<rparr>,
       checkOutSize = Map.empty \<rparr>"

text \<open>
  A \<^verbatim>\<open>for\<close> loop over a list of indices whose body may raise: the loop stops at the
  first error and keeps what the earlier iterations have already changed.
\<close>

fun for_loop ::
  "nat list \<Rightarrow> (nat \<Rightarrow> 's \<Rightarrow> error option \<times> 's \<times> event list) \<Rightarrow> 's
     \<Rightarrow> error option \<times> 's \<times> event list" where
  "for_loop [] body s = (None, s, [])"
| "for_loop (i # is) body s =
     (case body i s of
        (Some e, s', ev) \<Rightarrow> (Some e, s', ev)
      | (None, s', ev) \<Rightarrow>
          (case for_loop is body s' of (r, s'', ev') \<Rightarrow> (r, s'', ev @ ev')))"

definition size_of :: "RegisterPool \<Rightarrow> nat" where
  "size_of rp = length (pool rp)"

definition available :: "RegisterPool \<Rightarrow> nat" where
  "available rp = length (filter (\<lambda>s. status s = Available) (pool rp))"

text \<open>\<^verbatim>\<open>availableBlockAtEnd\<close>: the length of the trailing run of Available slots.\<close>

definition availableBlockAtEnd :: "RegisterPool \<Rightarrow> nat" where
  "availableBlockAtEnd rp =
     length (takeWhile (\<lambda>s. status s = Available) (rev (pool rp)))"

definition state :: "RegisterPool \<Rightarrow> event" where
  "state rp = PrintState (map status (pool rp))"

subsection \<open>remove\<close>

text \<open>
  The body of the loop of \<^verbatim>\<open>remove\<close>.  \<^verbatim>\<open>self.pool[i]\<close> raises IndexError past the
  end of the list.  The last \<^verbatim>\<open>else\<close> of the source (\<^verbatim>\<open>printExit\<close>) needs a status
  other than the three of the enumeration and has no counterpart here.
\<close>

definition remove_body ::
  "nat \<Rightarrow> nat \<Rightarrow> nat \<Rightarrow> Register list \<Rightarrow> error option \<times> Register list \<times> event list" where
  "remove_body start sz i p =
     (if \<not> i < length p then (Some IndexError, p, [])
      else (case status (p ! i) of
          Available \<Rightarrow> (None, p[i := (p ! i)\<lparr>status := Unavailable\<rparr>], [])
        | Unavailable \<Rightarrow>
            (None, p,
             [PrintWarning ''RegisterPool::remove(%u,%u) pool[%u](%s) already unavailable''
                [I (int start), I (int sz), I (int i), S (tag (p ! i))]])
        | InUse \<Rightarrow>
            (None, p,
             [PrintWarning ''RegisterPool::remove(%u,%u) pool[%u](%s) still in use''
                [I (int start), I (int sz), I (int i), S (tag (p ! i))]])))"

definition remove :: "RegisterPool \<Rightarrow> nat \<Rightarrow> nat \<Rightarrow> string \<Rightarrow> unit outcome" where
  "remove rp start sz tg =
     (let ev1 = (if printRP rp
                 then [Print ''RP::remove(%u..%u) for %s''
                         [I (int start), I (int sz - 1), S tg]]
                 else []);
          newSize = start + sz;
          oldSize = length (pool rp);
          ev2 = (if newSize > oldSize
                 then [PrintWarning ''RegisterPool::remove(%u,%u) but poolSize=%u''
                         [I (int start), I (int sz), I (int oldSize)]]
                 else [])
      in case for_loop [start ..< start + sz] (remove_body start sz) (pool rp) of
           (Some e, p', ev) \<Rightarrow> (Inl e, rp\<lparr>pool := p'\<rparr>, ev1 @ ev2 @ ev)
         | (None, p', ev) \<Rightarrow> (Inr (), rp\<lparr>pool := p'\<rparr>, ev1 @ ev2 @ ev))"

subsection \<open>checkIn\<close>

definition checkIn_body ::
  "nat \<Rightarrow> Register list \<Rightarrow> error option \<times> Register list \<times> event list" where
  "checkIn_body i p =
     (if \<not> i < length p then (Some IndexError, p, [])
      else (None, p[i := (p ! i)\<lparr>status := Available\<rparr>], []))"

text \<open>
  After the loop the source formats \<^verbatim>\<open>self.pool[i].tag\<close> with the last value of the
  loop variable, which is unbound when the loop has not run.
\<close>

definition checkIn :: "RegisterPool \<Rightarrow> nat \<Rightarrow> unit outcome" where
  "checkIn rp start =
     (case checkOutSize rp start of
        Some sz \<Rightarrow>
          (case for_loop [start ..< start + sz] checkIn_body (pool rp) of
             (Some e, p', ev) \<Rightarrow> (Inl e, rp\<lparr>pool := p'\<rparr>, ev)
           | (None, p', ev) \<Rightarrow>
               (let rp' = rp\<lparr>pool := p', checkOutSize := (checkOutSize rp)(start := None)\<rparr>
                in if printRP rp then
                     (if sz = 0 then (Inl NameError, rp', ev)
                      else (Inr (), rp',
                            ev @ [Print ''RP::checkIn('%s') @ %u +%u''
                                    [S (tag (p' ! (start + sz - 1))), I (int start),
                                     I (int sz)]]))
                   else (Inr (), rp', ev)))
      | None \<Rightarrow>
          (if \<not> start < length (pool rp) then (Inl IndexError, rp, [])
           else (Inr (), rp,
                 [PrintWarning ''RegisterPool::checkIn('%s',%s) but it was never checked out''
                    [S (tag (pool rp ! start)), I (int start)]])))"

subsection \<open>checkFinalState\<close>

fun checkFinalState_loop ::
  "RegisterPool \<Rightarrow> nat list \<Rightarrow> error option \<times> event list" where
  "checkFinalState_loop rp [] = (None, [])"
| "checkFinalState_loop rp (si # sis) =
     (if status (pool rp ! si) = InUse
      then (Some (RuntimeError
                    ''RegisterPool::checkFinalState: temp (%s, '%s') was never checked in.''
                    [I (int si), S (tag (pool rp ! si))]),
            if printRP rp then [state rp] else [])
      else checkFinalState_loop rp sis)"

definition checkFinalState :: "RegisterPool \<Rightarrow> unit outcome" where
  "checkFinalState rp =
     (case checkFinalState_loop rp [0 ..< length (pool rp)] of
        (Some e, ev) \<Rightarrow> (Inl e, rp, ev)
      | (None, ev) \<Rightarrow>
          (Inr (), rp, ev @ [Print2 (''total vgpr count: %u'' @ [CHR 0x0A]) [I (int (size_of rp))]]))"

subsection \<open>checkOutAligned\<close>

text \<open>
  Modelled from the spec: \<^verbatim>\<open>roundUpToNearestMultiple\<close> is imported from a module
  that is not part of this source; the spec has it round the append point up to satisfy
  the alignment.  There is no multiple to round up to when the alignment is zero.
\<close>

definition roundUpToNearestMultiple :: "nat \<Rightarrow> nat \<Rightarrow> error + nat" where
  "roundUpToNearestMultiple n d =
     (if d = 0 then Inl ZeroDivisionError else Inr (((n + d - 1) div d) * d))"

text \<open>
  The inner loop over \<^verbatim>\<open>j\<close>: it returns \<^verbatim>\<open>allAvailable\<close> and the value of the
  variable \<^verbatim>\<open>i\<close>, which the source overwrites with \<^verbatim>\<open>j+1\<close> before it breaks.
  The accesses \<^verbatim>\<open>self.pool[i+j]\<close> are below the length of the pool, since the loop
  is only reached when \<^verbatim>\<open>i + size <= len(self.pool)\<close>.
\<close>

fun allAvailable_loop :: "Register list \<Rightarrow> nat \<Rightarrow> nat list \<Rightarrow> bool \<times> nat" where
  "allAvailable_loop p i [] = (True, i)"
| "allAvailable_loop p i (j # js) =
     (if status (p ! (i + j)) \<noteq> Available then (False, j + 1)
      else allAvailable_loop p i js)"

text \<open>
  The scan \<^verbatim>\<open>for i in range(0, len(self.pool))\<close>.  The \<^verbatim>\<open>for\<close> statement binds
  \<^verbatim>\<open>i\<close> anew at every iteration, so the value that the inner loop has left in
  \<^verbatim>\<open>i\<close> is dropped.  The result is \<open>None\<close> for \<^verbatim>\<open>found == -1\<close>.
\<close>

fun scan :: "Register list \<Rightarrow> nat \<Rightarrow> nat \<Rightarrow> nat list \<Rightarrow> error + nat option" where
  "scan p sz alignment [] = Inr None"
| "scan p sz alignment (i # is) =
     (if alignment = 0 then Inl ZeroDivisionError
      else if i mod alignment \<noteq> 0 then scan p sz alignment is
      else if i + sz > length p then scan p sz alignment is
      else if fst (allAvailable_loop p i [0 ..< sz]) then Inr (Some i)
      else scan p sz alignment is)"

definition checkOut_body ::
  "string \<Rightarrow> nat \<Rightarrow> Register list \<Rightarrow> error option \<times> Register list \<times> event list" where
  "checkOut_body tg i p =
     (if \<not> i < length p then (Some IndexError, p, [])
      else (None, p[i := (p ! i)\<lparr>status := InUse, tag := tg\<rparr>], []))"

text \<open>
  The loop \<^verbatim>\<open>for i in range(len(self.pool)-1, 0, -1)\<close> that looks for the beginning of
  the trailing run of Available slots; it carries the pool and \<^verbatim>\<open>start\<close>.  Its
  indices are below the length of the pool by construction.
\<close>

fun tail_loop :: "string \<Rightarrow> nat list \<Rightarrow> Register list \<times> nat \<Rightarrow> Register list \<times> nat" where
  "tail_loop tg [] (p, start) = (p, start)"
| "tail_loop tg (i # is) (p, start) =
     (if status (p ! i) = Available
      then tail_loop tg is (p[i := (p ! i)\<lparr>tag := tg\<rparr>], i)
      else (p, start))"

text \<open>The loop \<^verbatim>\<open>for i in range(start, len(self.pool))\<close> of the overflow path.\<close>

definition mark_tail :: "string \<Rightarrow> nat \<Rightarrow> Register list \<Rightarrow> Register list" where
  "mark_tail tg start p =
     fold (\<lambda>i q. q[i := (q ! i)\<lparr>status := InUse, tag := tg\<rparr>]) [start ..< length p] p"

text \<open>The loop \<^verbatim>\<open>for i in range(0, overflow)\<close> that appends the new slots.\<close>

definition append_loop :: "string \<Rightarrow> nat \<Rightarrow> nat \<Rightarrow> Register list \<Rightarrow> Register list" where
  "append_loop tg start overflow p =
     fold (\<lambda>i q. if length q < start
                  then q @ [\<lparr>status = Available, tag = tg\<rparr>]
                  else q @ [\<lparr>status = InUse, tag = tg\<rparr>]) [0 ..< overflow] p"

definition checkOutAligned ::
  "RegisterPool \<Rightarrow> nat \<Rightarrow> nat \<Rightarrow> string \<Rightarrow> bool option \<Rightarrow> nat outcome" where
  "checkOutAligned rp sz alignment tg preventOverflow =
     (let preventOverflow' =
            (case preventOverflow of None \<Rightarrow> defaultPreventOverflow rp | Some b \<Rightarrow> b)
      in if \<not> sz > 0 then (Inl AssertionError, rp, [])
         else (case scan (pool rp) sz alignment [0 ..< length (pool rp)] of
             Inl e \<Rightarrow> (Inl e, rp, [])
           | Inr (Some found) \<Rightarrow>
               (case for_loop [found ..< found + sz] (checkOut_body tg) (pool rp) of
                  (Some e, p', ev) \<Rightarrow> (Inl e, rp\<lparr>pool := p'\<rparr>, ev)
                | (None, p', ev) \<Rightarrow>
                    (let rp' = rp\<lparr>pool := p',
                                   checkOutSize := (checkOutSize rp)(found \<mapsto> sz)\<rparr>
                     in (Inr found, rp',
                         ev @ (if printRP rp
                               then [Print ''RP::checkOut '%s' (%u,%u) @ %u avail=%u''
                                       [S tg, I (int sz), I (int alignment), I (int found),
                                        I (int (available rp'))]]
                               else []))))
           | Inr None \<Rightarrow>
               (if preventOverflow' then (Inl AssertionError, rp, [])
                else (case tail_loop tg (rev [1 ..< length (pool rp)])
                             (pool rp, length (pool rp)) of
                    (p1, start0) \<Rightarrow>
                      (case roundUpToNearestMultiple start0 alignment of
                         Inl e \<Rightarrow> (Inl e, rp\<lparr>pool := p1\<rparr>, [])
                       | Inr start \<Rightarrow>
                           (let newSize = start + sz;
                                oldSize = length p1;
                                overflow = newSize - oldSize;
                                p2 = mark_tail tg start p1;
                                p3 = append_loop tg start overflow p2;
                                rp' = rp\<lparr>pool := p3,
                                          checkOutSize := (checkOutSize rp)(start \<mapsto> sz)\<rparr>
                            in (Inr start, rp',
                                if printRP rp
                                then [state rp',
                                      Print ''RP::checkOut' %s' (%u,%u) @ %u (overflow)''
                                        [S tg, I (int sz), I (int alignment), I (int start)]]
                                else [])))))))"

definition checkOut :: "RegisterPool \<Rightarrow> nat \<Rightarrow> string \<Rightarrow> bool option \<Rightarrow> nat outcome" where
  "checkOut rp sz tg preventOverflow = checkOutAligned rp sz 1 tg preventOverflow"

subsection \<open>Observations used by the properties of the pool\<close>

text \<open>
  The slots that the failure report of \<^verbatim>\<open>checkFinalState\<close> names: the message has one
  place for an index and one for a tag.
\<close>

fun reported_slots :: "error + 'a \<Rightarrow> (nat \<times> string) list" where
  "reported_slots (Inl (RuntimeError f [I si, S t])) = [(nat si, t)]"
| "reported_slots r = []"

text \<open>A pool in which two slots are still checked out.\<close>

definition leak_pool :: RegisterPool where
  "leak_pool = \<lparr> printRP = False, poolType = CHR ''v'', defaultPreventOverflow = False,
     pool = [\<lparr>status = InUse, tag = ''a''\<rparr>, \<lparr>status = InUse, tag = ''b''\<rparr>],
     checkOutSize = [0 \<mapsto> 1, 1 \<mapsto> 1] \<rparr>"

text \<open>A pool of four slots with one register checked out.\<close>

definition pool4 :: RegisterPool where
  "pool4 = \<lparr> printRP = False, poolType = CHR ''v'', defaultPreventOverflow = False,
     pool = [\<lparr>status = Available, tag = ''x''\<rparr>, \<lparr>status = InUse, tag = ''y''\<rparr>,
             \<lparr>status = Available, tag = ''z''\<rparr>, \<lparr>status = Available, tag = ''z''\<rparr>],
     checkOutSize = [1 \<mapsto> 1] \<rparr>"

text \<open>
  The words of the spec for \<^verbatim>\<open>checkOutAligned\<close>: an alignment-satisfying, in-bounds,
  fully Available run of length \<open>sz\<close> begins at \<open>i\<close>; no such run exists; and the index
  at which the last contiguous run of Available slots at the tail of the pool begins.
\<close>

definition aligned_run :: "Register list \<Rightarrow> nat \<Rightarrow> nat \<Rightarrow> nat \<Rightarrow> bool" where
  "aligned_run p sz alignment i =
     (i mod alignment = 0 \<and> i + sz \<le> length p \<and>
      list_all (\<lambda>j. status (p ! (i + j)) = Available) [0 ..< sz])"

definition no_aligned_run :: "Register list \<Rightarrow> nat \<Rightarrow> nat \<Rightarrow> bool" where
  "no_aligned_run p sz alignment = (\<not> list_ex (aligned_run p sz alignment) [0 ..< length p])"

definition tail_start :: "RegisterPool \<Rightarrow> nat" where
  "tail_start rp = length (pool rp) - availableBlockAtEnd rp"

text \<open>
  The pool after \<^verbatim>\<open>RegisterPool(0, 'v', False)\<close>, \<^verbatim>\<open>checkOut(2, 'a')\<close> and
  \<^verbatim>\<open>checkIn(0)\<close>: two slots, both Available.
\<close>

definition aa_pool :: RegisterPool where
  "aa_pool =
     fst (snd (checkIn
       (fst (snd (checkOut (RegisterPool_init 0 CHR ''v'' False False) 2 ''a'' None))) 0))"

section \<open>Memory instructions and their selection\<close>

text \<open>
  Widths are counted in registers and may be fractions (a half or a quarter of a
  register); they are rational numbers here.  Strides and the offset multiplier are
  Python integers.
\<close>

record MemoryInstruction =
  name :: string
  formatting :: string
  numAddresses :: nat
  numOffsets :: nat
  offsetMultiplier :: int
  blockWidth :: rat
  numBlocks :: nat
  totalWidth :: rat
  IssueLatency :: nat

definition MemoryInstruction_init ::
  "string \<Rightarrow> nat \<Rightarrow> nat \<Rightarrow> int \<Rightarrow> rat \<Rightarrow> string \<Rightarrow> MemoryInstruction" where
  "MemoryInstruction_init nm nAddr nOff offMult bw fmt =
     (let nb = (if nAddr > 1 \<or> nOff > 1 then 2 else 1) in
      \<lparr> name = nm, formatting = fmt, numAddresses = nAddr, numOffsets = nOff,
        offsetMultiplier = offMult, blockWidth = bw, numBlocks = nb,
        totalWidth = bw * of_nat nb,
        IssueLatency =
          (if nm = ''ds_read_b128'' then 2
           else if nm = ''ds_write_b128'' then 5
           else if nm = ''ds_write2_b64'' then 3
           else if nm = ''ds_write_b64'' then 3
           else if nm = ''ds_write2_b32'' then 3
           else if nm = ''ds_write_b32'' then 2
           else if nm = ''ds_write_u16'' then 2
           else 1) \<rparr>)"

text \<open>
  The loop \<^verbatim>\<open>for stride in strides\<close>; the remainder by a zero offset multiplier
  raises ZeroDivisionError.
\<close>

fun stride_loop :: "int \<Rightarrow> int list \<Rightarrow> bool \<Rightarrow> error + bool" where
  "stride_loop offMult [] valid = Inr valid"
| "stride_loop offMult (stride # strides) valid =
     (if offMult = 0 then Inl ZeroDivisionError
      else stride_loop offMult strides (if stride mod offMult \<noteq> 0 then False else valid))"

text \<open>The body of the loop over the catalog: the value of \<^verbatim>\<open>valid\<close> for one entry.\<close>

definition entry_valid :: "rat \<Rightarrow> int list \<Rightarrow> bool \<Rightarrow> MemoryInstruction \<Rightarrow> error + bool" where
  "entry_valid width strides combine instruction =
     (let valid = (if width < blockWidth instruction then False else True) in
      if combine then
        (if numOffsets instruction > 0
         then stride_loop (offsetMultiplier instruction) strides valid
         else Inr valid)
      else
        (if numOffsets instruction > 1 \<or> numAddresses instruction > 1
         then Inr False else Inr valid))"

fun find_loop ::
  "rat \<Rightarrow> int list \<Rightarrow> bool \<Rightarrow> MemoryInstruction list \<Rightarrow> nat list \<Rightarrow> error + nat option" where
  "find_loop width strides combine instructions [] = Inr None"
| "find_loop width strides combine instructions (i # is) =
     (case entry_valid width strides combine (instructions ! i) of
        Inl e \<Rightarrow> Inl e
      | Inr valid \<Rightarrow>
          (if valid then Inr (Some i)
           else find_loop width strides combine instructions is))"

definition findMemoryInstructionForWidthStride ::
  "rat \<Rightarrow> int list \<Rightarrow> bool \<Rightarrow> MemoryInstruction list \<Rightarrow> (error + nat) \<times> event list" where
  "findMemoryInstructionForWidthStride width strides combine instructions =
     (case find_loop width strides combine instructions [0 ..< length instructions] of
        Inl e \<Rightarrow> (Inl e, [])
      | Inr (Some i) \<Rightarrow> (Inr i, [])
      | Inr None \<Rightarrow>
          (Inr (length instructions),
           [PrintWarning ''Could not find valid memory instruction for width=%f'' [F width]]))"

text \<open>
  \<^verbatim>\<open>selectMemoryInstruction\<close>.  Of the writer object it reads the catalog
  \<^verbatim>\<open>self.memoryInstructions\<close> and \<^verbatim>\<open>self.kernelName\<close>.
\<close>

definition selectMemoryInstruction ::
  "(string \<rightharpoonup> MemoryInstruction list) \<Rightarrow> string \<Rightarrow> string \<Rightarrow> rat \<Rightarrow> string \<Rightarrow> bool \<Rightarrow> bool
     \<Rightarrow> int list \<Rightarrow> (error + nat) \<times> event list" where
  "selectMemoryInstruction memoryInstructions kernelName operation width write2 para2 perp2
       strides =
     (case memoryInstructions operation of
        None \<Rightarrow> (Inl KeyError, [])
      | Some instructions \<Rightarrow>
          (case (if (write2 = ''Coalesced'' \<and> para2) \<or> (write2 = ''Perpendicular'' \<and> perp2)
                 then findMemoryInstructionForWidthStride width strides True instructions
                 else findMemoryInstructionForWidthStride width strides False instructions) of
             (Inl e, ev) \<Rightarrow> (Inl e, ev)
           | (Inr instructionIdx, ev) \<Rightarrow>
               (if instructionIdx < length instructions then (Inr instructionIdx, ev)
                else (Inl (RuntimeError
                  ''Could not find valid memory instruction for operation=%s, width=%f, kernel=%s''
                  [S operation, F width, S kernelName]), ev))))"

text \<open>
  The catalog that the writer builds, for either value of \<^verbatim>\<open>kernel["BufferLoad"]\<close>.
\<close>

definition memoryInstructions_of :: "bool \<Rightarrow> (string \<rightharpoonup> MemoryInstruction list)" where
  "memoryInstructions_of BufferLoad =
     (let ds_read_b128 = MemoryInstruction_init ''ds_read_b128'' 1 1 4 4 ''%s, %s offset:%s'';
          ds_read2_b64 = MemoryInstruction_init ''ds_read2_b64'' 1 2 2 2
                           ''%s, %s offset0:%s, offset1:%s'';
          ds_read_b64 = MemoryInstruction_init ''ds_read_b64'' 1 1 2 2 ''%s, %s offset:%s'';
          ds_read2_b32 = MemoryInstruction_init ''ds_read2_b32'' 1 2 1 1
                           ''%s, %s offset0:%s offset1:%s'';
          ds_read_b32 = MemoryInstruction_init ''ds_read_b32'' 1 1 1 1 ''%s, %s offset:%s'';
          ds_read_u16 = MemoryInstruction_init ''ds_read_u16'' 1 1 1 (1/2) ''%s, %s offset:%s'';
          ds_read_u8 = MemoryInstruction_init ''ds_read_u8'' 1 1 1 (1/4) ''%s, %s offset:%s'';
          ds_write_b128 = MemoryInstruction_init ''ds_write_b128'' 1 1 4 4 ''%s, %s offset:%s'';
          ds_write2_b64 = MemoryInstruction_init ''ds_write2_b64'' 1 2 2 2
                            ''%s, %s, %s offset0:%s, offset1:%s'';
          ds_write_b64 = MemoryInstruction_init ''ds_write_b64'' 1 1 2 2 ''%s, %s offset:%s'';
          ds_write2_b32 = MemoryInstruction_init ''ds_write2_b32'' 1 2 1 1
                            ''%s, %s, %s offset0:%s offset1:%s'';
          ds_write_b32 = MemoryInstruction_init ''ds_write_b32'' 1 1 1 1 ''%s, %s offset:%s'';
          ds_write_b16 = MemoryInstruction_init ''ds_write_b16'' 1 1 1 (1/2) ''%s, %s offset:%s'';
          ds_write_b8 = MemoryInstruction_init ''ds_write_b8'' 1 1 1 (1/4) ''%s, %s offset:%s'';
          flat_load_dwordx4 = MemoryInstruction_init ''flat_load_dwordx4'' 1 0 0 4 ''UNUSED %s, %s'';
          flat_load_dwordx2 = MemoryInstruction_init ''flat_load_dwordx2'' 1 0 0 2 ''UNUSED %s, %s'';
          flat_load_dword = MemoryInstruction_init ''flat_load_dword'' 1 0 0 1 ''UNUSED %s, %s'';
          buffer_load_dwordx4 = MemoryInstruction_init ''buffer_load_dwordx4'' 1 0 0 4
                                  ''UNUSED %s, %s, %s, %s offen offset:0 %s'';
          buffer_load_dwordx2 = MemoryInstruction_init ''buffer_load_dwordx2'' 1 0 0 2
                                  ''UNUSED %s, %s, %s, %s offen offset:0 %s'';
          buffer_load_dword = MemoryInstruction_init ''buffer_load_dword'' 1 0 0 1
                                ''UNUSED %s, %s, %s, %s offen offset:0 %s'';
          buffer_load_short = MemoryInstruction_init ''buffer_load_short_d16'' 1 0 0 (1/2)
                                ''UNUSED %s, %s, %s, %s offen offset:0 %s'';
          buffer_load_byte = MemoryInstruction_init ''buffer_load_byte_d16'' 1 0 0 (1/4)
                               ''UNUSED %s, %s, %s, %s offen offset:0 %s'';
          flat_store_dwordx4 = MemoryInstruction_init ''flat_store_dwordx4'' 1 0 0 4 ''%s, %s'';
          flat_store_dwordx2 = MemoryInstruction_init ''flat_store_dwordx2'' 1 0 0 2 ''%s, %s'';
          flat_store_dword = MemoryInstruction_init ''flat_store_dword'' 1 0 0 1 ''%s, %s'';
          chosen_load_dwordx4 = (if BufferLoad then buffer_load_dwordx4 else flat_load_dwordx4);
          chosen_load_dwordx2 = (if BufferLoad then buffer_load_dwordx2 else flat_load_dwordx2);
          chosen_load_dword = (if BufferLoad then buffer_load_dword else flat_load_dword);
          chosen_load_short = (if BufferLoad then buffer_load_short else flat_load_dword);
          chosen_load_byte = (if BufferLoad then buffer_load_byte else flat_load_dword);
          chosen_store_dwordx4 = flat_store_dwordx4;
          chosen_store_dwordx2 = flat_store_dwordx2;
          chosen_store_dword = flat_store_dword
      in map_of
        [(''GlobalRead'', [chosen_load_dwordx4, chosen_load_dwordx2, chosen_load_dword,
                           chosen_load_short, chosen_load_byte]),
         (''GlobalWrite'', [chosen_store_dwordx4, chosen_store_dwordx2, chosen_store_dword]),
         (''LocalRead'', [ds_read_b128, ds_read2_b64, ds_read_b64, ds_read2_b32, ds_read_b32,
                          ds_read_u16, ds_read_u8]),
         (''LocalWrite'', [ds_write_b128, ds_write2_b64, ds_write_b64, ds_write2_b32,
                           ds_write_b32, ds_write_b16, ds_write_b8])])"

text \<open>
  The conditions of the loop body read as a predicate: the entry is not too wide, and it
  passes the rule for combining (every stride divisible by the offset multiplier when the
  instruction has offsets) or the rule for not combining (a single address and at most
  one offset).
\<close>

definition qualifies :: "rat \<Rightarrow> int list \<Rightarrow> bool \<Rightarrow> MemoryInstruction \<Rightarrow> bool" where
  "qualifies width strides combine instruction =
     (blockWidth instruction \<le> width \<and>
      (if combine
       then numOffsets instruction = 0 \<or>
            list_all (\<lambda>stride. stride mod offsetMultiplier instruction = 0) strides
       else numOffsets instruction \<le> 1 \<and> numAddresses instruction \<le> 1))"

text \<open>An entry that divides strides by its offset multiplier has a non-zero one.\<close>

definition catalog_ok :: "MemoryInstruction list \<Rightarrow> bool" where
  "catalog_ok instructions =
     list_all (\<lambda>instruction. numOffsets instruction = 0 \<or> offsetMultiplier instruction \<noteq> 0)
       instructions"

definition combine_of :: "string \<Rightarrow> bool \<Rightarrow> bool \<Rightarrow> bool" where
  "combine_of write2 para2 perp2 =
     ((write2 = ''Coalesced'' \<and> para2) \<or> (write2 = ''Perpendicular'' \<and> perp2))"

text \<open>The catalog for local reads.\<close>

definition local_read_catalog :: "MemoryInstruction list" where
  "local_read_catalog = the (memoryInstructions_of True ''LocalRead'')"

section \<open>StoreState\<close>

text \<open>
  The entries of the kernel configuration that the constructor of \<^verbatim>\<open>StoreState\<close>
  and the constructor of its \<^verbatim>\<open>StoreConstConfig\<close> read.  \<^verbatim>\<open>UseInitialStridesCD\<close> is
  the entry of \<^verbatim>\<open>kernel["ProblemType"]\<close>; a \<^verbatim>\<open>StoreRemapVectorWidth\<close> of zero is
  false.
\<close>

record Kernel =
  BufferStore :: bool
  PackedC0IndicesX :: "nat list"
  PackedC1IndicesX :: "nat list"
  StoreRemapVectorWidth :: nat
  UseInitialStridesCD :: bool
  EnableMatrixInstruction :: bool

text \<open>
  The attributes of the writer object that the two constructors read or change: the
  register counts per address, the two register pools, the bytes per element and per
  register, and the flags \<^verbatim>\<open>serializedStore\<close> and \<^verbatim>\<open>overflowedResources\<close>.
\<close>

record KernelWriter =
  rpgo :: int
  rpga :: int
  laneSGPRCount :: int
  maxSgprs :: int
  sgprPool :: RegisterPool
  vgprPool :: RegisterPool
  bpeCexternal :: int
  bpeCinternal :: int
  bpr :: int
  serializedStore :: bool
  overflowedResources :: int
  coord1 :: nat

record StoreConstConfig =
  cfg_gwvw :: int
  numVgprsPerAddr :: int
  numSgprsPerElement :: int
  fixedSgprsPerBatch :: int
  numElementsPerBatchLimitedBySgprs :: int
  numVgprsPerDataPerVI :: rat
  numVgprPerValuC :: int
  halfDataRegPerVI :: bool

text \<open>
  The constructor of \<^verbatim>\<open>StoreConstConfig\<close>.  Of the store state it reads
  \<^verbatim>\<open>optSingleColVgpr\<close> and \<^verbatim>\<open>optSharedMask\<close>.  It may set
  \<^verbatim>\<open>overflowedResources\<close> of the writer, so the writer is returned as well.  The
  quotients by \<^verbatim>\<open>bpr\<close> raise ZeroDivisionError for a zero divisor; the first two are
  floating-point quotients in the source and rational numbers here (the writer sets
  \<^verbatim>\<open>bpr\<close> to 4, for which the floating-point values are exact).
\<close>

definition StoreConstConfig_init ::
  "KernelWriter \<Rightarrow> Kernel \<Rightarrow> nat \<Rightarrow> bool \<Rightarrow> int \<Rightarrow> bool \<Rightarrow> bool \<Rightarrow> bool
     \<Rightarrow> (error + StoreConstConfig) \<times> KernelWriter" where
  "StoreConstConfig_init kernelWriter kern ss_optSingleColVgpr ss_optSharedMask gw edge beta
       atomic =
     (let numVgprsPerAddr' =
            (if ss_optSingleColVgpr \<noteq> 0 then 0
             else if BufferStore kern then rpgo kernelWriter else rpga kernelWriter);
          (numSgprsPerElement', fixedSgprsPerBatch') =
            (if ss_optSharedMask then (0, laneSGPRCount kernelWriter)
             else (laneSGPRCount kernelWriter, 3 * laneSGPRCount kernelWriter));
          limited0 =
            (if numSgprsPerElement' \<noteq> 0 then
               (let numSgprAvailable =
                      maxSgprs kernelWriter - int (size_of (sgprPool kernelWriter))
                        + int (availableBlockAtEnd (sgprPool kernelWriter));
                    numSgprAvailable' = numSgprAvailable AND NOT 1
                in (numSgprAvailable' - fixedSgprsPerBatch') div numSgprsPerElement')
             else 9999);
          (kernelWriter', limited) =
            (if limited0 \<le> 0 then (kernelWriter\<lparr>overflowedResources := 2\<rparr>, 1)
             else (kernelWriter, limited0))
      in if (atomic \<or> beta) \<and> bpr kernelWriter = 0 then (Inl ZeroDivisionError, kernelWriter')
         else
           (let perVI =
                  (if atomic then
                     (let regsPerElement = (if BufferStore kern then 2 else 3) in
                      of_int (regsPerElement * bpeCexternal kernelWriter)
                        / of_int (bpr kernelWriter))
                   else if beta then
                     of_int (bpeCexternal kernelWriter) / of_int (bpr kernelWriter)
                   else 0)
            in if serializedStore kernelWriter \<and> \<not> EnableMatrixInstruction kern
               then (Inl AssertionError, kernelWriter')
               else if serializedStore kernelWriter \<and> bpr kernelWriter = 0
               then (Inl ZeroDivisionError, kernelWriter')
               else
                 (Inr \<lparr> cfg_gwvw = gw,
                         numVgprsPerAddr = numVgprsPerAddr',
                         numSgprsPerElement = numSgprsPerElement',
                         fixedSgprsPerBatch = fixedSgprsPerBatch',
                         numElementsPerBatchLimitedBySgprs = limited,
                         numVgprsPerDataPerVI = perVI,
                         numVgprPerValuC =
                           (if serializedStore kernelWriter
                            then bpeCinternal kernelWriter div bpr kernelWriter else 0),
                         halfDataRegPerVI = (of_int gw * perVI < 1) \<rparr>,
                  kernelWriter')))"

record StoreState =
  optSingleColVgpr :: nat
  optSharedColVgpr :: nat
  optSrdIncForRow :: nat
  optSharedMask :: bool
  cfg :: StoreConstConfig
  lastCoordOffset1 :: int
  coord1Vgpr :: nat
  numAddrVgpr :: nat
  sharedColVgprs :: "nat option"
  firstBatch :: bool

text \<open>
  The first part of the constructor of \<^verbatim>\<open>StoreState\<close>, up to the assertion: the
  values of \<^verbatim>\<open>optSingleColVgpr\<close>, \<^verbatim>\<open>optSharedColVgpr\<close>, \<^verbatim>\<open>optSrdIncForRow\<close> and
  \<^verbatim>\<open>optSharedMask\<close>.
\<close>

definition StoreState_flags :: "Kernel \<Rightarrow> bool \<Rightarrow> bool \<Rightarrow> nat \<times> nat \<times> nat \<times> bool" where
  "StoreState_flags kern edge atomic =
     (let optSingleColVgpr0 = 0 :: nat;
          optSharedColVgpr0 = 0 :: nat;
          optSrdIncForRow0 = 0 :: nat;
          (optSingleColVgpr1, optSharedColVgpr1, optSrdIncForRow1) =
            (if BufferStore kern \<and> \<not> edge \<and> \<not> atomic then
               (let (single, shared) =
                      (if length (PackedC0IndicesX kern) > 1 then (optSingleColVgpr0, 1)
                       else if length (PackedC1IndicesX kern) > 1 then (0, 0)
                       else (1, optSharedColVgpr0))
                in (single, shared,
                    if \<not> atomic \<and> length (PackedC1IndicesX kern) = 1 then 1
                    else optSrdIncForRow0))
             else (optSingleColVgpr0, optSharedColVgpr0, optSrdIncForRow0));
          optSrdIncForRow2 =
            (if StoreRemapVectorWidth kern \<noteq> 0 then 1 else optSrdIncForRow1);
          (optSingleColVgpr2, optSharedColVgpr2) =
            (if UseInitialStridesCD kern then (0, 0)
             else (optSingleColVgpr1, optSharedColVgpr1));
          optSharedMask' = (BufferStore kern \<and> \<not> edge \<and> \<not> atomic)
      in (optSingleColVgpr2, optSharedColVgpr2, optSrdIncForRow2, optSharedMask'))"

text \<open>
  The constructor of \<^verbatim>\<open>StoreState\<close>: the flags, the assertion that the two column
  flags are not both set, the \<^verbatim>\<open>StoreConstConfig\<close>, and the checkout of the shared
  address registers from the pool of vector registers (an element of the batch is
  \<^verbatim>\<open>(d1, d0, v1, v0)\<close>).  With neither column flag set the source takes the last
  branch, \<^verbatim>\<open>numAddrVgpr = 0\<close> and \<^verbatim>\<open>sharedColVgprs = None\<close>, where every element has
  its own address registers.  The result is the new object or the exception, the writer
  as the constructor leaves it, and what the pool has printed.
\<close>

definition StoreState_init ::
  "KernelWriter \<Rightarrow> Kernel \<Rightarrow> int \<Rightarrow> bool \<Rightarrow> bool \<Rightarrow> bool \<Rightarrow> (nat \<times> nat \<times> nat \<times> nat) list
     \<Rightarrow> (error + StoreState) \<times> KernelWriter \<times> event list" where
  "StoreState_init kernelWriter kern gw edge beta atomic elements =
     (case StoreState_flags kern edge atomic of
        (single, shared, srdInc, sharedMask) \<Rightarrow>
          if \<not> (\<not> (single \<noteq> 0 \<and> shared \<noteq> 0)) then (Inl AssertionError, kernelWriter, [])
          else
            (case StoreConstConfig_init kernelWriter kern single sharedMask gw edge beta atomic of
               (Inl e, kw1) \<Rightarrow> (Inl e, kw1, [])
             | (Inr c, kw1) \<Rightarrow>
                 (let ss = \<lparr> optSingleColVgpr = single, optSharedColVgpr = shared,
                              optSrdIncForRow = srdInc, optSharedMask = sharedMask,
                              cfg = c, lastCoordOffset1 = 0, coord1Vgpr = coord1 kw1,
                              numAddrVgpr = 0, sharedColVgprs = None, firstBatch = True \<rparr>
                  in if shared \<noteq> 0 then
                       (let numCols =
                              length (filter (\<lambda>(d1, d0, v1, v0). d1 = 0 \<and> v1 = 0) elements)
                        in case checkOut (vgprPool kw1) numCols
                                  ''sharedColVgprs for packed elements'' None of
                             (Inl e, vp, ev) \<Rightarrow> (Inl e, kw1\<lparr>vgprPool := vp\<rparr>, ev)
                           | (Inr r, vp, ev) \<Rightarrow>
                               (Inr (ss\<lparr>numAddrVgpr := numCols, sharedColVgprs := Some r\<rparr>),
                                kw1\<lparr>vgprPool := vp\<rparr>, ev))
                     else if single \<noteq> 0 then
                       (case checkOut (vgprPool kw1) 1 ''sharedColVgprs'' None of
                          (Inl e, vp, ev) \<Rightarrow> (Inl e, kw1\<lparr>vgprPool := vp\<rparr>, ev)
                        | (Inr r, vp, ev) \<Rightarrow>
                            (Inr (ss\<lparr>numAddrVgpr := 1, sharedColVgprs := Some r\<rparr>),
                             kw1\<lparr>vgprPool := vp\<rparr>, ev))
                     else (Inr ss, kw1, []))))"

text \<open>Configurations and a writer used below.\<close>

definition packed_kernel :: Kernel where
  "packed_kernel = \<lparr> BufferStore = True, PackedC0IndicesX = [0, 2], PackedC1IndicesX = [1],
     StoreRemapVectorWidth = 0, UseInitialStridesCD = False, EnableMatrixInstruction = False \<rparr>"

definition plain_kernel :: Kernel where
  "plain_kernel = \<lparr> BufferStore = True, PackedC0IndicesX = [0], PackedC1IndicesX = [1],
     StoreRemapVectorWidth = 0, UseInitialStridesCD = False, EnableMatrixInstruction = False \<rparr>"

definition writer0 :: KernelWriter where
  "writer0 = \<lparr> rpgo = 1, rpga = 2, laneSGPRCount = 2, maxSgprs = 102,
     sgprPool = RegisterPool_init 20 CHR ''s'' True False, vgprPool = pool4,
     bpeCexternal = 2, bpeCinternal = 4, bpr = 4, serializedStore = False,
     overflowedResources = 0, coord1 = 5 \<rparr>"

section \<open>Emitted instructions\<close>

text \<open>
  Modelled from the spec: the helpers \<^verbatim>\<open>inst\<close>, \<^verbatim>\<open>vgpr\<close> and \<^verbatim>\<open>sgpr\<close> are imported
  from a module that is not part of this source.  By the spec the output is a sequence
  of instruction lines, each an opcode, a list of operands and a comment.  A register is
  named by a symbol and an offset (\<^verbatim>\<open>vgpr("ValuC+%u"%n)\<close>) or by its number; \<^verbatim>\<open>sgpr\<close>
  may take a count of registers.
\<close>

datatype regref = Sym string nat | Num nat

datatype operand = vgpr regref | sgpr regref nat | lit string

datatype instr = Inst (opcode: string) (operands: "operand list") (comment: string)

definition inst :: "string \<Rightarrow> operand list \<Rightarrow> string \<Rightarrow> instr list" where
  "inst opc ops cmt = [Inst opc ops cmt]"

subsection \<open>The packing of the stores in globalWriteBatch\<close>

datatype DataType =
  Half | BFloat16 | Single | Double | SingleComplex | DoubleComplex | Int8 | Int32

text \<open>
  The registers and values that the packing loop of \<^verbatim>\<open>globalWriteBatch\<close> reads:
  entries of the kernel configuration, the vector width \<^verbatim>\<open>gwvw\<close>,
  \<^verbatim>\<open>ss.elementSumIdx[elementIdx]\<close>, and the temporaries of the bfloat16 conversion.
\<close>

record PackEnv =
  DestDataType :: DataType
  HighPrecisionAccumulate :: bool
  GlobalAccumulation :: string
  gwvw :: nat
  elementSumIdx :: nat
  tmpS01 :: nat
  laneSGPRC :: nat
  vgprBf16Temp :: nat
  vgprBf16Inc :: nat
  vgprFp32Nan :: nat
  vgprBf16Mask :: nat

text \<open>
  One iteration of \<^verbatim>\<open>for vi in range(0, gwvw)\<close> below the comment ``pack stores'':
  the instructions appended to \<^verbatim>\<open>kStr\<close> for the component \<open>vi\<close>.
\<close>

definition pack_body :: "PackEnv \<Rightarrow> nat \<Rightarrow> error + instr list" where
  "pack_body env vi =
     (let sumIdxV = elementSumIdx env + vi;
          valuC = vgpr (Sym ''ValuC'' sumIdxV)
      in if DestDataType env = Half then
           (let k1 = inst ''v_cvt_f16_f32'' [valuC, valuC] ''convert C to fp16''
            in if vi mod 2 = 1 then
                 (if \<not> gwvw env mod 2 = 0 then Inl AssertionError
                  else (let d = elementSumIdx env + vi div 2
                        in Inr (k1 @ inst ''v_pack_b32_f16''
                                  [vgpr (Num d), vgpr (Sym ''ValuC'' (sumIdxV - 1)), valuC]
                                  ''Pack with neighbor'')))
               else Inr k1)
         else if DestDataType env = BFloat16 then
           (let k1 = inst ''v_cmp_u_f32''
                       [sgpr (Num (tmpS01 env)) (laneSGPRC env), valuC, valuC] ''check Nan'';
                k2 = inst ''v_bfe_u32''
                       [vgpr (Num (vgprBf16Temp env)), valuC, lit ''16'', lit ''1'']
                       ''Non-Nan case: store lsb of bf16'';
                k3 = inst ''v_add3_u32''
                       [vgpr (Num (vgprBf16Temp env)), valuC, vgpr (Num (vgprBf16Temp env)),
                        vgpr (Num (vgprBf16Inc env))]
                       ''Non-Nan case: add lsb and the increment for rounding'';
                k4 = inst ''v_cndmask_b32''
                       [valuC, vgpr (Num (vgprBf16Temp env)), vgpr (Num (vgprFp32Nan env)),
                        sgpr (Num (tmpS01 env)) (laneSGPRC env)] '''';
                k5 = (if vi mod 2 = 0 then
                        inst ''v_lshrrev_b32'' [valuC, lit ''16'', valuC] ''convert C to bf16''
                      else if vi mod 2 = 1 then
                        (let d = elementSumIdx env + vi div 2
                         in inst ''v_and_or_b32''
                              [vgpr (Num d), valuC, vgpr (Num (vgprBf16Mask env)),
                               vgpr (Sym ''ValuC'' (sumIdxV - 1))]
                              ''pack two bf16 to dword'')
                      else [])
            in Inr (k1 @ k2 @ k3 @ k4 @ k5))
         else Inr [])"

fun pack_loop :: "PackEnv \<Rightarrow> nat list \<Rightarrow> instr list \<Rightarrow> error + instr list" where
  "pack_loop env [] kStr = Inr kStr"
| "pack_loop env (vi # vis) kStr =
     (case pack_body env vi of
        Inl e \<Rightarrow> Inl e
      | Inr k \<Rightarrow> pack_loop env vis (kStr @ k))"

definition pack_stores :: "PackEnv \<Rightarrow> error + instr list" where
  "pack_stores env =
     (if HighPrecisionAccumulate env \<and> GlobalAccumulation env \<noteq> ''MultipleBuffer''
      then pack_loop env [0 ..< gwvw env] []
      else Inr [])"

text \<open>
  The narrowing sequence of one component, as the claim describes it: one self-compare
  (both sources the same register), then the rounding add, then the conditional select
  into the compared register, then the truncating shift by 16 or the pack.
\<close>

definition is_self_compare :: "instr \<Rightarrow> bool" where
  "is_self_compare i =
     (opcode i = ''v_cmp_u_f32'' \<and>
      (case operands i of [dst, src0, src1] \<Rightarrow> src0 = src1 | _ \<Rightarrow> False))"

definition is_final :: "instr \<Rightarrow> bool" where
  "is_final i =
     ((opcode i = ''v_lshrrev_b32'' \<and> (case operands i of [dst, sh, src] \<Rightarrow> sh = lit ''16'' | _ \<Rightarrow> False))
      \<or> opcode i = ''v_and_or_b32'')"

definition count_op :: "string \<Rightarrow> instr list \<Rightarrow> nat" where
  "count_op opc k = length (filter (\<lambda>i. opcode i = opc) k)"

definition bf16_env :: PackEnv where
  "bf16_env = \<lparr> DestDataType = BFloat16, HighPrecisionAccumulate = True,
     GlobalAccumulation = ''None'', gwvw = 2, elementSumIdx = 8, tmpS01 = 40, laneSGPRC = 2,
     vgprBf16Temp = 20, vgprBf16Inc = 21, vgprFp32Nan = 22, vgprBf16Mask = 23 \<rparr>"

section \<open>Scalar arithmetic of the emitted sequences\<close>

text \<open>
  The meaning of the scalar instructions that the sequences below consist of, on 32-bit
  registers: sums and products wrap around, \<^verbatim>\<open>s_mul_hi_u32\<close> is the high half of the
  64-bit product, a 32-bit shift uses the low five bits of the shift operand and a 64-bit
  shift the low six, \<^verbatim>\<open>s_cmp_lt_u32\<close> sets the condition code SCC and
  \<^verbatim>\<open>s_cmov_b32\<close> moves when SCC is set.
\<close>

type_synonym u32 = "32 word"
type_synonym u64 = "64 word"

definition s_mov_b32 :: "u32 \<Rightarrow> u32" where
  "s_mov_b32 src = src"

definition s_add_u32 :: "u32 \<Rightarrow> u32 \<Rightarrow> u32" where
  "s_add_u32 src0 src1 = src0 + src1"

definition s_mul_i32 :: "u32 \<Rightarrow> u32 \<Rightarrow> u32" where
  "s_mul_i32 src0 src1 = src0 * src1"

definition s_mul_hi_u32 :: "u32 \<Rightarrow> u32 \<Rightarrow> u32" where
  "s_mul_hi_u32 src0 src1 = of_nat ((unat src0 * unat src1) div 2 ^ 32)"

definition s_lshr_b32 :: "u32 \<Rightarrow> u32 \<Rightarrow> u32" where
  "s_lshr_b32 src0 src1 = drop_bit (unat (src1 AND 31)) src0"

definition s_lshr_b64 :: "u64 \<Rightarrow> u32 \<Rightarrow> u64" where
  "s_lshr_b64 src0 src1 = drop_bit (unat (src1 AND 63)) src0"

definition s_and_b32 :: "u32 \<Rightarrow> u32 \<Rightarrow> u32" where
  "s_and_b32 src0 src1 = src0 AND src1"

definition s_cmp_lt_u32 :: "u32 \<Rightarrow> u32 \<Rightarrow> bool" where
  "s_cmp_lt_u32 src0 src1 = (src0 < src1)"

definition s_cmov_b32 :: "bool \<Rightarrow> u32 \<Rightarrow> u32 \<Rightarrow> u32" where
  "s_cmov_b32 scc dst src = (if scc then src else dst)"

text \<open>The vector instructions of the fallback of \<^verbatim>\<open>s_mul_u64_u32\<close>, for one lane.\<close>

definition v_mul_hi_u32 :: "u32 \<Rightarrow> u32 \<Rightarrow> u32" where
  "v_mul_hi_u32 src0 src1 = of_nat ((unat src0 * unat src1) div 2 ^ 32)"

definition v_mul_lo_u32 :: "u32 \<Rightarrow> u32 \<Rightarrow> u32" where
  "v_mul_lo_u32 src0 src1 = src0 * src1"

text \<open>
  \<^verbatim>\<open>s_mul_u64_u32\<close>: the pair \<open>(dst0, dst1)\<close> of the low and the high half of the
  product; without \<^verbatim>\<open>HasSMulHi\<close> the operands are swapped and the product is formed in
  a vector register and read back.
\<close>

definition s_mul_u64_u32 :: "bool \<Rightarrow> u32 \<Rightarrow> u32 \<Rightarrow> u32 \<times> u32" where
  "s_mul_u64_u32 HasSMulHi src0 src1 =
     (if HasSMulHi then
        (let dst1 = s_mul_hi_u32 src0 src1;
             dst0 = s_mul_i32 src0 src1
         in (dst0, dst1))
      else
        (let vtmp0 = src1;
             dst1 = v_mul_hi_u32 vtmp0 src0;
             dst0 = v_mul_lo_u32 vtmp0 src0
         in (dst0, dst1)))"

subsection \<open>sMagicDiv and sMagicDivAlg2\<close>

text \<open>
  The value that the sequence of \<^verbatim>\<open>sMagicDiv\<close> leaves in \<^verbatim>\<open>sgpr(dest)\<close>: the 64-bit
  product in the register pair, shifted right, of which the low register is the quotient.
\<close>

definition sMagicDiv :: "bool \<Rightarrow> u32 \<Rightarrow> u32 \<Rightarrow> u32 \<Rightarrow> u32" where
  "sMagicDiv HasSMulHi dividend magicNumber magicShift =
     (let (dest0, dest1) = s_mul_u64_u32 HasSMulHi dividend magicNumber;
          pair = s_lshr_b64 (word_cat dest1 dest0) magicShift
      in ucast pair)"

text \<open>The value that the sequence of \<^verbatim>\<open>sMagicDivAlg2\<close> leaves in \<^verbatim>\<open>sgpr(dest)\<close>.\<close>

definition sMagicDivAlg2 :: "u32 \<Rightarrow> u32 \<Rightarrow> u32 \<Rightarrow> u32" where
  "sMagicDivAlg2 dividend magicNumber magicShiftAbit =
     (let dest1 = s_mul_hi_u32 dividend magicNumber;
          tmpS = s_lshr_b32 magicShiftAbit 31;
          dest = s_mul_i32 dividend tmpS;
          dest = s_add_u32 dest dest1;
          tmpS = s_and_b32 magicShiftAbit 0x7fffffff;
          dest = s_lshr_b32 dest tmpS
      in dest)"

text \<open>
  The constants that the writer computes itself for the blocked work-group mapping:
  \<^verbatim>\<open>smallNumMagicShift = 31\<close> and
  \<^verbatim>\<open>magicNumberWgm = ((1<<smallNumMagicShift) // absWgm + 1)\<close>.
\<close>

definition smallNumMagicShift :: nat where
  "smallNumMagicShift = 31"

definition magicNumberWgm :: "nat \<Rightarrow> nat" where
  "magicNumberWgm absWgm = 2 ^ smallNumMagicShift div absWgm + 1"

text \<open>
  The other triples are computed on the host and passed to the kernel; that computation
  is not part of this source, so a triple is a parameter here.  A multiplier \<open>M\<close>, a
  shift \<open>s\<close> and an add bit \<open>abit\<close> form a magic triple for the divisor \<open>n\<close> when the
  33-bit multiplier \<open>M + abit * 2 ^ 32\<close>, divided by \<open>2 ^ (32 + s)\<close>, is the reciprocal
  of \<open>n\<close> rounded up with an error of at most \<open>2 ^ s\<close> in the numerator; this is the
  condition under which multiplying and shifting in unbounded arithmetic divides every
  32-bit dividend exactly.  The shift and the add bit travel in one register, the add
  bit in bit 31.
\<close>

definition magic_triple_ok :: "nat \<Rightarrow> nat \<Rightarrow> nat \<Rightarrow> nat \<Rightarrow> bool" where
  "magic_triple_ok n M s abit =
     (0 < n \<and> M < 2 ^ 32 \<and> s < 32 \<and> abit \<le> 1 \<and>
      2 ^ (32 + s) \<le> n * (M + abit * 2 ^ 32) \<and>
      n * (M + abit * 2 ^ 32) \<le> 2 ^ (32 + s) + 2 ^ s)"

definition magicShiftAbit_of :: "nat \<Rightarrow> nat \<Rightarrow> u32" where
  "magicShiftAbit_of s abit = of_nat (s + abit * 2 ^ 31)"

subsection \<open>calculateLoopNumIterGsu\<close>

text \<open>
  Modelled from the spec: \<^verbatim>\<open>scalarStaticDivideAndRemainder\<close> is imported from a module
  that is not part of this source.  By the spec it leaves the quotient and the remainder
  of the dividend by the static divisor in the two result registers.
\<close>

definition scalarStaticDivideAndRemainder :: "u32 \<Rightarrow> nat \<Rightarrow> u32 \<times> u32" where
  "scalarStaticDivideAndRemainder dReg divisor =
     (of_nat (unat dReg div divisor), of_nat (unat dReg mod divisor))"

text \<open>
  The value that the sequence of \<^verbatim>\<open>calculateLoopNumIterGsu\<close> leaves in the loop
  counter, from its value before, the register \<^verbatim>\<open>GSUSumIdx\<close> and the static divisor
  \<^verbatim>\<open>kernel["GlobalSplitU"]\<close>.  The remainder goes to \<^verbatim>\<open>GSUSumIdx+1\<close>.
\<close>

definition calculateLoopNumIterGsu :: "nat \<Rightarrow> u32 \<Rightarrow> u32 \<Rightarrow> u32" where
  "calculateLoopNumIterGsu GlobalSplitU loopCounter GSUSumIdx =
     (let dividend = s_mov_b32 loopCounter;
          (quotient, remainder) = scalarStaticDivideAndRemainder dividend GlobalSplitU;
          loopCounter = quotient;
          tmpSgpr = s_add_u32 1 loopCounter;
          scc = s_cmp_lt_u32 GSUSumIdx remainder;
          loopCounter = s_cmov_b32 scc loopCounter tmpSgpr
      in loopCounter)"

text \<open>
  The trip count of the partition with index \<open>p\<close> when the iterations in the loop
  counter are split \<open>n\<close> ways.
\<close>

definition trip_count :: "nat \<Rightarrow> u32 \<Rightarrow> nat \<Rightarrow> nat" where
  "trip_count n iters p = unat (calculateLoopNumIterGsu n iters (of_nat p))"

section \<open>Properties\<close>

subsection \<open>checkFinalState\<close>

lemma checkFinalState_loop_None:
  "\<forall>i\<in>set is. status (pool rp ! i) \<noteq> InUse \<Longrightarrow> checkFinalState_loop rp is = (None, [])"
  by (induction "is") auto

lemma checkFinalState_loop_upt:
  assumes "lo \<le> m" "m < hi" "status (pool rp ! m) = InUse"
    and "\<forall>k. lo \<le> k \<and> k < m \<longrightarrow> status (pool rp ! k) \<noteq> InUse"
  shows "fst (checkFinalState_loop rp [lo ..< hi]) =
     Some (RuntimeError ''RegisterPool::checkFinalState: temp (%s, '%s') was never checked in.''
             [I (int m), S (tag (pool rp ! m))])"
  using assms
proof (induction "m - lo" arbitrary: lo)
  case 0
  then have "lo = m" by simp
  with 0 show ?case by (simp add: upt_conv_Cons)
next
  case (Suc d)
  then have lt: "lo < m" by simp
  with Suc.prems have ne: "status (pool rp ! lo) \<noteq> InUse" by simp
  from Suc.hyps(2) have d: "d = m - Suc lo" by simp
  from lt Suc.prems have "[lo ..< hi] = lo # [Suc lo ..< hi]" by (simp add: upt_conv_Cons)
  moreover have "fst (checkFinalState_loop rp [Suc lo ..< hi]) =
     Some (RuntimeError ''RegisterPool::checkFinalState: temp (%s, '%s') was never checked in.''
             [I (int m), S (tag (pool rp ! m))])"
    using Suc.hyps(1) [OF d] lt Suc.prems by simp
  ultimately show ?case using ne by simp
qed

text \<open>
  Claim C1, as amended.  If some slot is InUse, \<open>checkFinalState\<close> raises, and the report
  names the lowest-indexed InUse slot together with its tag (and no other slot); if no
  slot is InUse, it returns without raising.
\<close>

theorem checkFinalState_first_leak:
  "((\<exists>i<length (pool rp). status (pool rp ! i) = InUse) \<longrightarrow>
      (\<exists>si < length (pool rp). status (pool rp ! si) = InUse \<and>
         (\<forall>k < si. status (pool rp ! k) \<noteq> InUse) \<and>
         fst (checkFinalState rp) =
           Inl (RuntimeError
                  ''RegisterPool::checkFinalState: temp (%s, '%s') was never checked in.''
                  [I (int si), S (tag (pool rp ! si))]) \<and>
         reported_slots (fst (checkFinalState rp)) = [(si, tag (pool rp ! si))])) \<and>
   ((\<forall>i<length (pool rp). status (pool rp ! i) \<noteq> InUse) \<longrightarrow>
      fst (checkFinalState rp) = Inr ())"
proof (intro conjI impI)
  assume ex: "\<exists>i<length (pool rp). status (pool rp ! i) = InUse"
  define m where "m = (LEAST i. i < length (pool rp) \<and> status (pool rp ! i) = InUse)"
  from ex have m: "m < length (pool rp) \<and> status (pool rp ! m) = InUse"
    unfolding m_def
    using LeastI_ex [of "\<lambda>i. i < length (pool rp) \<and> status (pool rp ! i) = InUse"] by blast
  have least: "\<forall>k. 0 \<le> k \<and> k < m \<longrightarrow> status (pool rp ! k) \<noteq> InUse"
  proof (intro allI impI notI)
    fix k assume k: "0 \<le> k \<and> k < m" and "status (pool rp ! k) = InUse"
    with m have "k < length (pool rp) \<and> status (pool rp ! k) = InUse" by simp
    then have "m \<le> k" unfolding m_def
      using Least_le [of "\<lambda>i. i < length (pool rp) \<and> status (pool rp ! i) = InUse" k] by blast
    with k show False by simp
  qed
  from m least have "fst (checkFinalState_loop rp [0 ..< length (pool rp)]) =
     Some (RuntimeError ''RegisterPool::checkFinalState: temp (%s, '%s') was never checked in.''
             [I (int m), S (tag (pool rp ! m))])"
    using checkFinalState_loop_upt [of 0 m "length (pool rp)" rp] by blast
  then have "fst (checkFinalState rp) =
           Inl (RuntimeError
                  ''RegisterPool::checkFinalState: temp (%s, '%s') was never checked in.''
                  [I (int m), S (tag (pool rp ! m))])"
    by (cases "checkFinalState_loop rp [0 ..< length (pool rp)]")
       (simp add: checkFinalState_def)
  with m least show "\<exists>si < length (pool rp). status (pool rp ! si) = InUse \<and>
         (\<forall>k < si. status (pool rp ! k) \<noteq> InUse) \<and>
         fst (checkFinalState rp) =
           Inl (RuntimeError
                  ''RegisterPool::checkFinalState: temp (%s, '%s') was never checked in.''
                  [I (int si), S (tag (pool rp ! si))]) \<and>
         reported_slots (fst (checkFinalState rp)) = [(si, tag (pool rp ! si))]"
    by (intro exI [of _ m]) simp
next
  assume "\<forall>i<length (pool rp). status (pool rp ! i) \<noteq> InUse"
  then have "\<forall>i\<in>set [0 ..< length (pool rp)]. status (pool rp ! i) \<noteq> InUse" by simp
  from checkFinalState_loop_None [OF this]
  show "fst (checkFinalState rp) = Inr ()" by (simp add: checkFinalState_def)
qed

text \<open>
  Claim C1 as stated fails: with two InUse slots the report names slot 0 only, and slot 1
  with its tag is absent from it.
\<close>

theorem checkFinalState_counterexample:
  "status (pool leak_pool ! 1) = InUse \<and>
   fst (checkFinalState leak_pool) =
     Inl (RuntimeError ''RegisterPool::checkFinalState: temp (%s, '%s') was never checked in.''
            [I 0, S ''a'']) \<and>
   (1, tag (pool leak_pool ! 1)) \<notin> set (reported_slots (fst (checkFinalState leak_pool)))"
  by (simp add: leak_pool_def checkFinalState_def)

text \<open>The amended claim at a pool with a leak and at a pool without one.\<close>

theorem checkFinalState_first_leak_witness:
  "fst (checkFinalState leak_pool) =
     Inl (RuntimeError ''RegisterPool::checkFinalState: temp (%s, '%s') was never checked in.''
            [I 0, S ''a''])
   \<and> fst (checkFinalState (RegisterPool_init 2 CHR ''v'' False False)) = Inr ()"
proof -
  have a: "\<exists>i<length (pool leak_pool). status (pool leak_pool ! i) = InUse"
    by (intro exI [of _ 0]) (simp add: leak_pool_def)
  have b: "\<forall>i<length (pool (RegisterPool_init 2 CHR ''v'' False False)).
     status (pool (RegisterPool_init 2 CHR ''v'' False False) ! i) \<noteq> InUse"
    by (simp add: RegisterPool_init_def)
  from checkFinalState_first_leak [of leak_pool] a
  obtain si where si: "si < length (pool leak_pool)" "\<forall>k < si. status (pool leak_pool ! k) \<noteq> InUse"
     "fst (checkFinalState leak_pool) =
           Inl (RuntimeError
                  ''RegisterPool::checkFinalState: temp (%s, '%s') was never checked in.''
                  [I (int si), S (tag (pool leak_pool ! si))])" by blast
  have "status (pool leak_pool ! 0) = InUse" by (simp add: leak_pool_def)
  with si(2) have "si = 0" by (cases si) auto
  with si(3) have "fst (checkFinalState leak_pool) =
     Inl (RuntimeError ''RegisterPool::checkFinalState: temp (%s, '%s') was never checked in.''
            [I 0, S ''a''])" by (simp add: leak_pool_def)
  moreover from checkFinalState_first_leak [of "RegisterPool_init 2 CHR ''v'' False False"] b
  have "fst (checkFinalState (RegisterPool_init 2 CHR ''v'' False False)) = Inr ()" by blast
  ultimately show ?thesis by simp
qed

subsection \<open>checkIn\<close>

text \<open>
  Claim C10.  A checkin of a start index below the pool size that has no recorded
  checkout size returns normally, leaves the pool as it was (every slot with its status
  and tag, and the checkout-size map) and logs exactly one warning.
\<close>

theorem checkIn_never_checked_out:
  "start < length (pool rp) \<Longrightarrow> checkOutSize rp start = None \<Longrightarrow>
   checkIn rp start =
     (Inr (), rp,
      [PrintWarning ''RegisterPool::checkIn('%s',%s) but it was never checked out''
         [S (tag (pool rp ! start)), I (int start)]])"
  by (simp add: checkIn_def)

text \<open>The same at index 1 of a fresh pool of two slots.\<close>

theorem checkIn_never_checked_out_witness:
  "checkIn (RegisterPool_init 2 CHR ''v'' False False) 1 =
     (Inr (), RegisterPool_init 2 CHR ''v'' False False,
      [PrintWarning ''RegisterPool::checkIn('%s',%s) but it was never checked out''
         [S ''init'', I 1]])"
  using checkIn_never_checked_out [of 1 "RegisterPool_init 2 CHR ''v'' False False"]
  by (simp add: RegisterPool_init_def)

subsection \<open>remove\<close>

lemma remove_body_length:
  "remove_body start sz i p = (r, p', ev) \<Longrightarrow> length p' = length p"
  by (auto simp: remove_body_def split: if_splits Status.splits)

lemma remove_body_error:
  "remove_body start sz i p = (Some e, p', ev) \<Longrightarrow> e = IndexError"
  by (auto simp: remove_body_def split: if_splits Status.splits)

lemma for_loop_remove_past_end:
  "\<exists>i\<in>set is. \<not> i < length p \<Longrightarrow>
   fst (for_loop is (remove_body start sz) p) = Some IndexError"
proof (induction "is" arbitrary: p)
  case Nil
  then show ?case by simp
next
  case (Cons i "is")
  obtain r p' ev where b: "remove_body start sz i p = (r, p', ev)"
    by (cases "remove_body start sz i p") auto
  show ?case
  proof (cases r)
    case (Some e)
    with b remove_body_error have "e = IndexError" by blast
    with b Some show ?thesis by simp
  next
    case None
    with b have "i < length p" by (auto simp: remove_body_def split: if_splits)
    with Cons.prems have "\<exists>i\<in>set is. \<not> i < length p" by auto
    moreover from b have "length p' = length p" by (rule remove_body_length)
    ultimately have "fst (for_loop is (remove_body start sz) p') = Some IndexError"
      using Cons.IH [of p'] by simp
    with b None show ?thesis by (auto split: prod.splits)
  qed
qed

text \<open>
  A non-empty range that reaches past the end of the pool makes \<open>remove\<close> raise
  IndexError, after the warning, at the first index that is not in the list.
\<close>

lemma remove_past_end_raises:
  assumes "0 < sz" "length (pool rp) < start + sz"
  shows "fst (remove rp start sz tg) = Inl IndexError"
proof -
  from assms have "\<exists>i\<in>set [start ..< start + sz]. \<not> i < length (pool rp)"
    by (intro bexI [of _ "start + sz - 1"]) auto
  then have "fst (for_loop [start ..< start + sz] (remove_body start sz) (pool rp)) = Some IndexError"
    by (rule for_loop_remove_past_end)
  then show ?thesis
    by (cases "for_loop [start ..< start + sz] (remove_body start sz) (pool rp)")
       (simp add: remove_def Let_def)
qed

text \<open>
  Claim C8 fails on the code.  On a fresh pool of two slots, \<open>remove(1, 2)\<close> logs the
  warning about the pool size, handles slot 1, and then raises IndexError at index 2:
  the call does not complete.
\<close>

theorem remove_past_end_IndexError:
  "remove (RegisterPool_init 2 CHR ''v'' False False) 1 2 '''' =
     (Inl IndexError, RegisterPool_init 2 CHR ''v'' False False,
      [PrintWarning ''RegisterPool::remove(%u,%u) but poolSize=%u'' [I 1, I 2, I 2],
       PrintWarning ''RegisterPool::remove(%u,%u) pool[%u](%s) already unavailable''
         [I 1, I 2, I 1, S ''init'']])"
  by (simp add: remove_def RegisterPool_init_def remove_body_def upt_conv_Cons numeral_2_eq_2)

subsection \<open>checkOutAligned\<close>

lemma scan_Some:
  "scan p sz alignment is = Inr (Some found) \<Longrightarrow>
   found \<in> set is \<and> found mod alignment = 0 \<and> found + sz \<le> length p \<and>
   fst (allAvailable_loop p found [0 ..< sz])"
  by (induction "is") (auto split: if_splits)

lemma roundUpToNearestMultiple_dvd:
  "roundUpToNearestMultiple n d = Inr m \<Longrightarrow> d dvd m"
  by (auto simp: roundUpToNearestMultiple_def split: if_splits)

text \<open>
  Claim C3.  For a size above zero and an alignment of at least one, whenever
  \<open>checkOutAligned\<close> returns normally, from the scan or from the overflow path, the
  start index it returns is divisible by the alignment.
\<close>

theorem checkOutAligned_start_aligned:
  assumes "0 < sz" and "1 \<le> alignment"
    and "fst (checkOutAligned rp sz alignment tg preventOverflow) = Inr start"
  shows "alignment dvd start"
proof (cases "scan (pool rp) sz alignment [0 ..< length (pool rp)]")
  case (Inl e)
  with assms show ?thesis by (simp add: checkOutAligned_def)
next
  case (Inr found)
  show ?thesis
  proof (cases found)
    case (Some f)
    with Inr assms(1,3) have "start = f"
      by (auto simp: checkOutAligned_def Let_def split: prod.splits option.splits)
    moreover from Inr Some have "f mod alignment = 0" by (simp add: scan_Some)
    ultimately show ?thesis by auto
  next
    case None
    with Inr assms(1,3) obtain start0 where "roundUpToNearestMultiple start0 alignment = Inr start"
      by (auto simp: checkOutAligned_def Let_def split: prod.splits sum.splits if_splits)
    then show ?thesis by (rule roundUpToNearestMultiple_dvd)
  qed
qed

text \<open>Both paths at a pool of four slots: the scan finds 2, the overflow path gives 4.\<close>

lemma pool4_scan: "fst (checkOutAligned pool4 2 2 ''b'' None) = Inr 2"
  by code_simp

lemma pool4_overflow: "fst (checkOutAligned pool4 3 4 ''b'' None) = Inr 4"
  by code_simp

lemma pool4_overflow_pool: "pool (fst (snd (checkOutAligned pool4 3 4 ''b'' None))) = [\<lparr>status = Available, tag = ''x''\<rparr>, \<lparr>status = InUse, tag = ''y''\<rparr>,
             \<lparr>status = Available, tag = ''b''\<rparr>, \<lparr>status = Available, tag = ''b''\<rparr>,
             \<lparr>status = InUse, tag = ''b''\<rparr>, \<lparr>status = InUse, tag = ''b''\<rparr>, \<lparr>status = InUse, tag = ''b''\<rparr>]"
  by code_simp

theorem checkOutAligned_start_aligned_witness:
  "(0::nat) < 2 \<and> (1::nat) \<le> 2 \<and> fst (checkOutAligned pool4 2 2 ''b'' None) = Inr 2 \<and> (2::nat) dvd 2 \<and>
   (0::nat) < 3 \<and> (1::nat) \<le> 4 \<and> fst (checkOutAligned pool4 3 4 ''b'' None) = Inr 4 \<and> (4::nat) dvd 4"
proof -
  have a: "fst (checkOutAligned pool4 2 2 ''b'' None) = Inr 2" by (simp add: pool4_scan)
  have b: "fst (checkOutAligned pool4 3 4 ''b'' None) = Inr 4" by (simp add: pool4_overflow)
  have "(2::nat) dvd 2" using checkOutAligned_start_aligned [OF _ _ a] by simp
  moreover have "(4::nat) dvd 4" using checkOutAligned_start_aligned [OF _ _ b] by simp
  ultimately show ?thesis using a b by simp
qed


text \<open>The pool after a checkout of two registers and their checkin.\<close>

lemma aa_pool_slots:
  "pool aa_pool = [\<lparr>status = Available, tag = ''a''\<rparr>, \<lparr>status = Available, tag = ''a''\<rparr>]"
  unfolding aa_pool_def by code_simp

text \<open>
  Claim C4 fails on the code when the trailing run of Available slots reaches slot 0.
  The loop that looks for the beginning of the run stops before index 0, so with both
  slots of the pool Available (the run begins at 0, and 0 is aligned) the call returns
  start 1 and leaves slot 0 Available, where the claim has the allocation begin at the
  rounded-up beginning of the run.
\<close>

theorem checkOutAligned_tail_run_skips_slot0:
  "map status (pool aa_pool) = [Available, Available] \<and>
   no_aligned_run (pool aa_pool) 3 1 \<and>
   tail_start aa_pool = 0 \<and>
   roundUpToNearestMultiple (tail_start aa_pool) 1 = Inr 0 \<and>
   fst (checkOutAligned aa_pool 3 1 ''b'' (Some False)) = Inr 1 \<and>
   map status (pool (fst (snd (checkOutAligned aa_pool 3 1 ''b'' (Some False))))) =
     [Available, InUse, InUse, InUse]"
  unfolding aa_pool_def by code_simp

text \<open>
  The rest of what the claim says about the overflow holds on the code.  The scan finds
  nothing exactly when no aligned run exists; then, with overflow prevented, the call
  fails its assertion and the pool is as before.
\<close>

lemma allAvailable_loop_iff:
  "fst (allAvailable_loop p i js) = list_all (\<lambda>j. status (p ! (i + j)) = Available) js"
  by (induction js) auto

lemma scan_None_iff:
  "0 < alignment \<Longrightarrow>
   scan p sz alignment is = Inr None \<longleftrightarrow> \<not> list_ex (aligned_run p sz alignment) is"
  by (induction "is") (auto simp: aligned_run_def allAvailable_loop_iff)

lemma checkOutAligned_prevent_overflow:
  assumes "0 < sz" and "0 < alignment" and "no_aligned_run (pool rp) sz alignment"
    and "preventOverflow = Some True \<or> (preventOverflow = None \<and> defaultPreventOverflow rp)"
  shows "checkOutAligned rp sz alignment tg preventOverflow = (Inl AssertionError, rp, [])"
proof -
  from assms(2,3) have "scan (pool rp) sz alignment [0 ..< length (pool rp)] = Inr None"
    by (simp add: scan_None_iff no_aligned_run_def)
  with assms(1,4) show ?thesis by (auto simp: checkOutAligned_def)
qed

text \<open>
  The backward loop from the last slot down to slot 1 changes tags only, and stops at the
  beginning of the run of Available slots that ends the pool, or at slot 1.
\<close>

lemma tail_loop_upt:
  "lo \<le> h \<Longrightarrow> h \<le> length p \<Longrightarrow>
   \<exists>p' k. tail_loop tg (rev [lo ..< h]) (p, h) = (p', k) \<and> lo \<le> k \<and> k \<le> h \<and>
     length p' = length p \<and> map status p' = map status p \<and>
     (\<forall>i. k \<le> i \<and> i < h \<longrightarrow> status (p ! i) = Available) \<and>
     (lo < k \<longrightarrow> status (p ! (k - 1)) \<noteq> Available)"
proof (induction h arbitrary: p)
  case 0
  then show ?case by simp
next
  case (Suc h)
  show ?case
  proof (cases "lo = Suc h")
    case True
    then have "tail_loop tg (rev [lo ..< Suc h]) (p, Suc h) = (p, Suc h)" by simp
    with True show ?thesis
      by (intro exI [of _ p] exI [of _ "Suc h"]) auto
  next
    case False
    with Suc.prems have lo: "lo \<le> h" by simp
    then have upt: "rev [lo ..< Suc h] = h # rev [lo ..< h]" by simp
    show ?thesis
    proof (cases "status (p ! h) = Available")
      case notav: False
      with upt have "tail_loop tg (rev [lo ..< Suc h]) (p, Suc h) = (p, Suc h)" by simp
      with notav lo show ?thesis
        by (intro exI [of _ p] exI [of _ "Suc h"]) auto
    next
      case av: True
      let ?q = "p[h := (p ! h)\<lparr>tag := tg\<rparr>]"
      from Suc.prems have hl: "h < length p" by simp
      have st: "map status ?q = map status p"
        using hl by (simp add: map_update list_update_same_conv)
      from Suc.prems have "h \<le> length ?q" by simp
      from Suc.IH [OF lo this] obtain p' k where r:
        "tail_loop tg (rev [lo ..< h]) (?q, h) = (p', k)" "lo \<le> k" "k \<le> h"
        "length p' = length ?q" "map status p' = map status ?q"
        "\<forall>i. k \<le> i \<and> i < h \<longrightarrow> status (?q ! i) = Available"
        "lo < k \<longrightarrow> status (?q ! (k - 1)) \<noteq> Available" by blast
      have sq: "status (?q ! i) = status (p ! i)" if "i < length p" for i
        using that by (cases "i = h") simp_all
      from upt av r(1) have "tail_loop tg (rev [lo ..< Suc h]) (p, Suc h) = (p', k)" by simp
      moreover from r(6) av hl have "\<forall>i. k \<le> i \<and> i < Suc h \<longrightarrow> status (p ! i) = Available"
        by (auto simp: sq less_Suc_eq)
      moreover from r(7) r(3) hl have "lo < k \<longrightarrow> status (p ! (k - 1)) \<noteq> Available"
        by (auto simp: sq)
      ultimately show ?thesis using r(2,3,4,5) st
        by (intro exI [of _ p'] exI [of _ k]) simp
    qed
  qed
qed

text \<open>The beginning of the trailing run, as \<open>availableBlockAtEnd\<close> counts it.\<close>

lemma tail_start_props:
  "tail_start rp \<le> length (pool rp) \<and>
   (\<forall>i. tail_start rp \<le> i \<and> i < length (pool rp) \<longrightarrow> status (pool rp ! i) = Available) \<and>
   (0 < tail_start rp \<longrightarrow> status (pool rp ! (tail_start rp - 1)) \<noteq> Available)"
proof -
  let ?p = "pool rp"
  let ?P = "\<lambda>s. status s = Available"
  let ?m = "length (takeWhile ?P (rev ?p))"
  have m: "?m \<le> length ?p" using length_takeWhile_le [of ?P "rev ?p"] by simp
  have t: "tail_start rp = length ?p - ?m" by (simp add: tail_start_def availableBlockAtEnd_def)
  have a: "status (?p ! i) = Available" if "length ?p - ?m \<le> i" "i < length ?p" for i
  proof -
    let ?j = "length ?p - Suc i"
    from that have j: "?j < ?m" by simp
    then have "takeWhile ?P (rev ?p) ! ?j = rev ?p ! ?j" by (rule takeWhile_nth)
    moreover from j have "takeWhile ?P (rev ?p) ! ?j \<in> set (takeWhile ?P (rev ?p))"
      by (rule nth_mem)
    then have "?P (takeWhile ?P (rev ?p) ! ?j)"
      by (rule set_takeWhileD [THEN conjunct2])
    moreover from that have "rev ?p ! ?j = ?p ! i" by (simp add: rev_nth)
    ultimately show ?thesis by simp
  qed
  have b: "status (?p ! (length ?p - ?m - 1)) \<noteq> Available" if "0 < length ?p - ?m"
  proof -
    from that have lt: "?m < length (rev ?p)" by simp
    then have "\<not> ?P (rev ?p ! ?m)" by (rule nth_length_takeWhile)
    moreover from lt have "rev ?p ! ?m = ?p ! (length ?p - Suc ?m)" by (simp add: rev_nth)
    ultimately show ?thesis by simp
  qed
  show ?thesis
  proof (intro conjI allI impI)
    from m show "tail_start rp \<le> length ?p" by (simp add: t)
  next
    fix i assume "tail_start rp \<le> i \<and> i < length ?p"
    then show "status (?p ! i) = Available" using a [of i] by (simp add: t)
  next
    assume "0 < tail_start rp"
    then show "status (?p ! (tail_start rp - 1)) \<noteq> Available" using b by (simp add: t)
  qed
qed


lemma fold_update_upt:
  "b \<le> length p \<Longrightarrow>
   length (fold (\<lambda>i q. q[i := f (q ! i)]) [a ..< b] p) = length p \<and>
   (\<forall>k<length p. fold (\<lambda>i q. q[i := f (q ! i)]) [a ..< b] p ! k =
        (if a \<le> k \<and> k < b then f (p ! k) else p ! k))"
proof (induction b)
  case 0
  then show ?case by simp
next
  case (Suc b)
  show ?case
  proof (cases "a \<le> b")
    case False
    then show ?thesis by auto
  next
    case True
    let ?q = "fold (\<lambda>i q. q[i := f (q ! i)]) [a ..< b] p"
    from Suc.prems have "b \<le> length p" by simp
    from Suc.IH [OF this] have len: "length ?q = length p"
      and nth: "\<forall>k<length p. ?q ! k = (if a \<le> k \<and> k < b then f (p ! k) else p ! k)"
      by simp_all
    from True have fold: "fold (\<lambda>i q. q[i := f (q ! i)]) [a ..< Suc b] p = ?q[b := f (?q ! b)]"
      by simp
    from Suc.prems have b: "b < length p" by simp
    with nth have qb: "?q ! b = p ! b" by simp
    show ?thesis
    proof (intro conjI allI impI)
      show "length (fold (\<lambda>i q. q[i := f (q ! i)]) [a ..< Suc b] p) = length p"
        by (simp only: fold length_list_update len)
    next
      fix k assume k: "k < length p"
      show "fold (\<lambda>i q. q[i := f (q ! i)]) [a ..< Suc b] p ! k =
          (if a \<le> k \<and> k < Suc b then f (p ! k) else p ! k)"
      proof (cases "k = b")
        case True
        with b len qb \<open>a \<le> b\<close> show ?thesis by (simp only: fold) simp
      next
        case False
        with k len nth show ?thesis by (simp only: fold) (simp add: less_Suc_eq)
      qed
    qed
  qed
qed

lemma mark_tail_props:
  "length (mark_tail tg start p) = length p \<and>
   (\<forall>k<length p. mark_tail tg start p ! k =
        (if start \<le> k then \<lparr>status = InUse, tag = tg\<rparr> else p ! k))"
proof -
  have "length p \<le> length p" by simp
  from fold_update_upt [OF this, of "\<lambda>r. r\<lparr>status := InUse, tag := tg\<rparr>" start]
  show ?thesis by (simp add: mark_tail_def)
qed

lemma append_loop_eq:
  "append_loop tg start overflow p =
     p @ replicate (min overflow (start - length p)) \<lparr>status = Available, tag = tg\<rparr>
       @ replicate (overflow - (start - length p)) \<lparr>status = InUse, tag = tg\<rparr>"
proof (induction overflow)
  case 0
  then show ?case by (simp add: append_loop_def)
next
  case (Suc ov)
  let ?A = "\<lparr>status = Available, tag = tg\<rparr>" and ?U = "\<lparr>status = InUse, tag = tg\<rparr>"
  let ?q = "append_loop tg start ov p"
  have step: "append_loop tg start (Suc ov) p =
      (if length ?q < start then ?q @ [?A] else ?q @ [?U])"
    by (simp add: append_loop_def)
  have len: "length ?q = length p + ov" by (simp add: Suc.IH)
  show ?case
  proof (cases "ov < start - length p")
    case True
    then have "length ?q < start" by (simp add: len)
    with True show ?thesis
      by (simp add: step Suc.IH min_def replicate_append_same)
  next
    case False
    then have "\<not> length ?q < start" by (simp add: len)
    moreover from False have "Suc ov - (start - length p) = Suc (ov - (start - length p))" by simp
    ultimately show ?thesis using False
      by (simp add: step Suc.IH min_def replicate_append_same)
  qed
qed


lemma round_up_ge:
  fixes t a :: nat
  assumes "0 < a"
  shows "t \<le> ((t + a - 1) div a) * a"
proof -
  from assms have "t + a - 1 < a + ((t + a - 1) div a) * a" by (rule dividend_less_div_times)
  with assms show ?thesis by linarith
qed

text \<open>
  With overflow allowed and a trailing run that does not reach slot 0 (or an empty pool),
  the call returns the beginning of the trailing run rounded up to the alignment; the
  pool then ends with the requested range, all of it InUse with the new tag; the slots
  appended below the start are Available padding; the statuses of the slots below the
  start are unchanged; and the size is recorded under the start.
\<close>

lemma checkOutAligned_overflow:
  assumes sz: "0 < sz" and al: "0 < alignment"
    and norun: "no_aligned_run (pool rp) sz alignment"
    and pov: "preventOverflow = Some False \<or>
              (preventOverflow = None \<and> \<not> defaultPreventOverflow rp)"
    and t0: "pool rp = [] \<or> 0 < tail_start rp"
  defines "start \<equiv> ((tail_start rp + alignment - 1) div alignment) * alignment"
  shows "\<exists>rp' ev. checkOutAligned rp sz alignment tg preventOverflow = (Inr start, rp', ev) \<and>
      roundUpToNearestMultiple (tail_start rp) alignment = Inr start \<and>
      length (pool rp') = start + sz \<and>
      (\<forall>i. start \<le> i \<and> i < start + sz \<longrightarrow> pool rp' ! i = \<lparr>status = InUse, tag = tg\<rparr>) \<and>
      (\<forall>i. i < start \<and> i < length (pool rp) \<longrightarrow> status (pool rp' ! i) = status (pool rp ! i)) \<and>
      (\<forall>i. length (pool rp) \<le> i \<and> i < start \<longrightarrow>
           pool rp' ! i = \<lparr>status = Available, tag = tg\<rparr>) \<and>
      checkOutSize rp' = (checkOutSize rp)(start \<mapsto> sz)"
proof -
  let ?p = "pool rp"
  let ?len = "length ?p"
  let ?t = "tail_start rp"
  let ?A = "\<lparr>status = Available, tag = tg\<rparr>" and ?U = "\<lparr>status = InUse, tag = tg\<rparr>"
  note tp = tail_start_props [of rp]
  from tp have tp1: "?t \<le> ?len" by blast
  from al norun have scanN: "scan ?p sz alignment [0 ..< ?len] = Inr None"
    by (simp add: scan_None_iff no_aligned_run_def)
  have "\<exists>p1. tail_loop tg (rev [1 ..< ?len]) (?p, ?len) = (p1, ?t) \<and> length p1 = ?len \<and>
      map status p1 = map status ?p"
  proof (cases "?p = []")
    case True
    with tp1 have "?t = 0" by simp
    with True show ?thesis by simp
  next
    case False
    with t0 have tpos: "0 < ?t" by simp
    with tp1 have "1 \<le> ?len" by linarith
    from tail_loop_upt [OF this, of ?p tg] obtain p1 k where r:
      "tail_loop tg (rev [1 ..< ?len]) (?p, ?len) = (p1, k)" "1 \<le> k" "k \<le> ?len"
      "length p1 = ?len" "map status p1 = map status ?p"
      "\<forall>i. k \<le> i \<and> i < ?len \<longrightarrow> status (?p ! i) = Available"
      "1 < k \<longrightarrow> status (?p ! (k - 1)) \<noteq> Available" by auto
    have "k = ?t"
    proof (rule ccontr)
      assume ne: "k \<noteq> ?t"
      show False
      proof (cases "k < ?t")
        case True
        with tp1 have "k \<le> ?t - 1 \<and> ?t - 1 < ?len" by linarith
        with r(6) have "status (?p ! (?t - 1)) = Available" by blast
        with tp tpos show False by simp
      next
        case False
        with ne have lt: "?t < k" by simp
        with r(3) have "?t \<le> k - 1 \<and> k - 1 < ?len" by linarith
        with tp have "status (?p ! (k - 1)) = Available" by blast
        moreover from lt tpos have "1 < k" by simp
        ultimately show False using r(7) by simp
      qed
    qed
    with r(1,4,5) show ?thesis by blast
  qed
  then obtain p1 where tl: "tail_loop tg (rev [1 ..< ?len]) (?p, ?len) = (p1, ?t)"
    and len1: "length p1 = ?len" and st1: "map status p1 = map status ?p" by blast
  from al have ru: "roundUpToNearestMultiple ?t alignment = Inr start"
    by (simp add: roundUpToNearestMultiple_def start_def)
  from al have ge: "?t \<le> start" unfolding start_def by (rule round_up_ge)
  have aligned: "start mod alignment = 0" by (simp add: start_def)
  have gt: "?len < start + sz"
  proof (rule ccontr)
    assume "\<not> ?len < start + sz"
    then have le: "start + sz \<le> ?len" by simp
    have "list_all (\<lambda>j. status (?p ! (start + j)) = Available) [0 ..< sz]"
      unfolding list_all_iff
    proof
      fix j assume "j \<in> set [0 ..< sz]"
      then have "j < sz" by simp
      with le ge have "?t \<le> start + j \<and> start + j < ?len" by linarith
      with tp show "status (?p ! (start + j)) = Available" by blast
    qed
    with aligned le have "aligned_run ?p sz alignment start" by (simp add: aligned_run_def)
    moreover from le sz have "start \<in> set [0 ..< ?len]" by simp
    ultimately have "list_ex (aligned_run ?p sz alignment) [0 ..< ?len]"
      unfolding list_ex_iff by blast
    with norun show False by (simp add: no_aligned_run_def)
  qed
  let ?ov = "start + sz - ?len"
  let ?p2 = "mark_tail tg start p1"
  let ?p3 = "append_loop tg start ?ov ?p2"
  let ?rp' = "rp\<lparr>pool := ?p3, checkOutSize := (checkOutSize rp)(start \<mapsto> sz)\<rparr>"
  let ?ev = "if printRP rp
             then [state ?rp',
                   Print ''RP::checkOut' %s' (%u,%u) @ %u (overflow)''
                     [S tg, I (int sz), I (int alignment), I (int start)]]
             else []"
  have res: "checkOutAligned rp sz alignment tg preventOverflow = (Inr start, ?rp', ?ev)"
    using sz pov scanN tl ru len1
    by (cases preventOverflow) (auto simp: checkOutAligned_def Let_def)
  note mt = mark_tail_props [of tg start p1]
  from mt len1 have len2: "length ?p2 = ?len" by simp
  have p3: "?p3 = ?p2 @ replicate (min ?ov (start - ?len)) ?A @ replicate (?ov - (start - ?len)) ?U"
    by (simp only: append_loop_eq len2)
  have "min ?ov (start - ?len) + (?ov - (start - ?len)) = ?ov" by linarith
  moreover from gt have "?len + ?ov = start + sz" by linarith
  ultimately have len3: "length ?p3 = start + sz"
    by (simp only: p3 length_append length_replicate len2)
  have inuse: "?p3 ! i = ?U" if "start \<le> i \<and> i < start + sz" for i
  proof (cases "i < ?len")
    case True
    with mt len1 that have "?p2 ! i = ?U" by simp
    with True show ?thesis by (simp add: p3 nth_append len2)
  next
    case False
    with that have "\<not> i - ?len < min ?ov (start - ?len)" by linarith
    moreover from that False have "i - ?len - min ?ov (start - ?len) < ?ov - (start - ?len)"
      by linarith
    ultimately show ?thesis using False by (simp add: p3 nth_append len2)
  qed
  have keep: "status (?p3 ! i) = status (?p ! i)" if "i < start \<and> i < ?len" for i
  proof -
    from that mt len1 have "?p2 ! i = p1 ! i" by simp
    with that have "?p3 ! i = p1 ! i" by (simp add: p3 nth_append len2)
    moreover from that len1 have "status (p1 ! i) = map status p1 ! i" by simp
    moreover from that have "status (?p ! i) = map status ?p ! i" by simp
    ultimately show ?thesis by (simp add: st1)
  qed
  have pad: "?p3 ! i = ?A" if "?len \<le> i \<and> i < start" for i
  proof -
    from that sz have "i - ?len < min ?ov (start - ?len)" by linarith
    with that show ?thesis by (simp add: p3 nth_append len2)
  qed
  show ?thesis
    apply (rule exI [of _ ?rp'], rule exI [of _ ?ev])
    using res ru len3 inuse keep pad by simp
qed

section \<open>Properties of the instruction selection\<close>

lemma stride_loop_Inr_True: "stride_loop offMult strides valid = Inr True \<Longrightarrow> valid"
  by (induction strides arbitrary: valid) (auto split: if_splits)

lemma stride_loop_nonzero:
  "offMult \<noteq> 0 \<Longrightarrow>
   stride_loop offMult strides valid =
     Inr (valid \<and> list_all (\<lambda>stride. stride mod offMult = 0) strides)"
  by (induction strides arbitrary: valid) auto

lemma entry_valid_not_too_wide:
  "entry_valid width strides combine instruction = Inr True \<Longrightarrow> blockWidth instruction \<le> width"
  by (auto simp: entry_valid_def Let_def split: if_splits dest: stride_loop_Inr_True)

lemma entry_valid_qualifies:
  "numOffsets instruction = 0 \<or> offsetMultiplier instruction \<noteq> 0 \<Longrightarrow>
   entry_valid width strides combine instruction = Inr (qualifies width strides combine instruction)"
  by (auto simp: entry_valid_def qualifies_def Let_def stride_loop_nonzero)

lemma find_loop_Some:
  "find_loop width strides combine instructions is = Inr (Some i) \<Longrightarrow>
   i \<in> set is \<and> entry_valid width strides combine (instructions ! i) = Inr True"
  by (induction "is") (auto split: sum.splits if_splits)

lemma find_loop_None:
  "\<forall>i\<in>set is. entry_valid width strides combine (instructions ! i) = Inr False \<Longrightarrow>
   find_loop width strides combine instructions is = Inr None"
  by (induction "is") auto

lemma findMemoryInstructionForWidthStride_index:
  assumes "fst (findMemoryInstructionForWidthStride width strides combine instructions) = Inr idx"
    and "idx < length instructions"
  shows "blockWidth (instructions ! idx) \<le> width"
proof -
  from assms have "find_loop width strides combine instructions [0 ..< length instructions] = Inr (Some idx)"
    by (auto simp: findMemoryInstructionForWidthStride_def split: sum.splits option.splits)
  then have "entry_valid width strides combine (instructions ! idx) = Inr True"
    by (simp add: find_loop_Some)
  then show ?thesis by (rule entry_valid_not_too_wide)
qed

lemma findMemoryInstructionForWidthStride_none:
  assumes "catalog_ok instructions"
    and "\<not> list_ex (qualifies width strides combine) instructions"
  shows "fst (findMemoryInstructionForWidthStride width strides combine instructions) =
           Inr (length instructions)"
proof -
  have "\<forall>i\<in>set [0 ..< length instructions].
          entry_valid width strides combine (instructions ! i) = Inr False"
  proof
    fix i assume "i \<in> set [0 ..< length instructions]"
    then have i: "instructions ! i \<in> set instructions" by simp
    with assms(1) have "numOffsets (instructions ! i) = 0 \<or> offsetMultiplier (instructions ! i) \<noteq> 0"
      by (simp add: catalog_ok_def list_all_iff)
    then have "entry_valid width strides combine (instructions ! i) =
                 Inr (qualifies width strides combine (instructions ! i))"
      by (rule entry_valid_qualifies)
    moreover from assms(2) i have "\<not> qualifies width strides combine (instructions ! i)"
      by (auto simp: list_ex_iff)
    ultimately show "entry_valid width strides combine (instructions ! i) = Inr False" by simp
  qed
  then have "find_loop width strides combine instructions [0 ..< length instructions] = Inr None"
    by (rule find_loop_None)
  then show ?thesis by (simp add: findMemoryInstructionForWidthStride_def)
qed

lemma if_to_arg: "(if c then f True else f False) = f c"
  by (cases c) simp_all

lemma selectMemoryInstruction_generic:
  assumes "memoryInstructions operation = Some instructions"
  shows "(fst (selectMemoryInstruction memoryInstructions kernelName operation width write2
                 para2 perp2 strides) = Inr idx \<longrightarrow>
            idx < length instructions \<and> blockWidth (instructions ! idx) \<le> width) \<and>
         (catalog_ok instructions \<and>
          \<not> list_ex (qualifies width strides (combine_of write2 para2 perp2)) instructions \<longrightarrow>
            fst (selectMemoryInstruction memoryInstructions kernelName operation width write2
                   para2 perp2 strides) =
              Inl (RuntimeError
                ''Could not find valid memory instruction for operation=%s, width=%f, kernel=%s''
                [S operation, F width, S kernelName]))"
proof -
  let ?c = "combine_of write2 para2 perp2"
  let ?f = "findMemoryInstructionForWidthStride width strides ?c instructions"
  have sel: "selectMemoryInstruction memoryInstructions kernelName operation width write2
                 para2 perp2 strides =
       (case ?f of
             (Inl e, ev) \<Rightarrow> (Inl e, ev)
           | (Inr instructionIdx, ev) \<Rightarrow>
               (if instructionIdx < length instructions then (Inr instructionIdx, ev)
                else (Inl (RuntimeError
                  ''Could not find valid memory instruction for operation=%s, width=%f, kernel=%s''
                  [S operation, F width, S kernelName]), ev)))"
    using assms
    by (simp only: selectMemoryInstruction_def combine_of_def option.case
          if_to_arg [of _ "\<lambda>c. findMemoryInstructionForWidthStride width strides c instructions"])
  obtain r ev where f: "?f = (r, ev)" by (cases ?f) auto
  show ?thesis
  proof (rule conjI; rule impI)
    assume a: "fst (selectMemoryInstruction memoryInstructions kernelName operation width write2
                 para2 perp2 strides) = Inr idx"
    with sel f have "r = Inr idx \<and> idx < length instructions"
      by (cases r) (auto split: if_splits)
    with f findMemoryInstructionForWidthStride_index [of width strides ?c instructions idx]
    show "idx < length instructions \<and> blockWidth (instructions ! idx) \<le> width" by simp
  next
    assume "catalog_ok instructions \<and> \<not> list_ex (qualifies width strides ?c) instructions"
    then have "fst ?f = Inr (length instructions)"
      by (simp add: findMemoryInstructionForWidthStride_none)
    with f have "r = Inr (length instructions)" by simp
    with sel f show "fst (selectMemoryInstruction memoryInstructions kernelName operation width write2
                   para2 perp2 strides) =
              Inl (RuntimeError
                ''Could not find valid memory instruction for operation=%s, width=%f, kernel=%s''
                [S operation, F width, S kernelName])" by simp
  qed
qed

lemma memoryInstructions_of_ok:
  "memoryInstructions_of BufferLoad operation = Some instructions \<Longrightarrow> catalog_ok instructions"
  by (cases BufferLoad)
     (auto simp: memoryInstructions_of_def Let_def catalog_ok_def MemoryInstruction_init_def
           split: if_splits)


text \<open>
  Claim C2.  For every operation kind of the catalog and every requested width: an index
  that \<open>selectMemoryInstruction\<close> returns is an index of the catalog whose entry has a
  block width of at most the requested width; and when no entry qualifies (each is too
  wide or fails the rule for combining or for not combining), the function raises the
  RuntimeError ``Could not find valid memory instruction for operation=...''.
\<close>

theorem selectMemoryInstruction_sound:
  assumes "memoryInstructions_of BufferLoad operation = Some instructions"
  shows "(\<forall>idx. fst (selectMemoryInstruction (memoryInstructions_of BufferLoad) kernelName
                 operation width write2 para2 perp2 strides) = Inr idx \<longrightarrow>
            idx < length instructions \<and> blockWidth (instructions ! idx) \<le> width) \<and>
         (\<not> list_ex (qualifies width strides (combine_of write2 para2 perp2)) instructions \<longrightarrow>
            fst (selectMemoryInstruction (memoryInstructions_of BufferLoad) kernelName
                   operation width write2 para2 perp2 strides) =
              Inl (RuntimeError
                ''Could not find valid memory instruction for operation=%s, width=%f, kernel=%s''
                [S operation, F width, S kernelName]))"
  using selectMemoryInstruction_generic [of "memoryInstructions_of BufferLoad" operation
      instructions kernelName width write2 para2 perp2 strides] assms
    memoryInstructions_of_ok [OF assms]
  by blast

text \<open>
  Two calls on the catalog for local reads: width 2 with combining selects entry 3, and
  width 1/8 is narrower than every entry.
\<close>

lemma local_read_catalog: "memoryInstructions_of True ''LocalRead'' = Some local_read_catalog"
  by (simp add: local_read_catalog_def memoryInstructions_of_def Let_def)

lemma select_example:
  "fst (selectMemoryInstruction (memoryInstructions_of True) ''k'' ''LocalRead'' 2
          ''Coalesced'' True False [3]) = Inr 3"
  unfolding local_read_catalog_def by code_simp

lemma select_example2:
  "\<not> list_ex (qualifies (1/8) [4] (combine_of ''None'' False False)) local_read_catalog"
  unfolding local_read_catalog_def by code_simp

theorem selectMemoryInstruction_sound_witness:
  "fst (selectMemoryInstruction (memoryInstructions_of True) ''k'' ''LocalRead'' 2
          ''Coalesced'' True False [3]) = Inr 3 \<and>
   3 < length local_read_catalog \<and> blockWidth (local_read_catalog ! 3) \<le> 2 \<and>
   \<not> list_ex (qualifies (1/8) [4] (combine_of ''None'' False False)) local_read_catalog \<and>
   fst (selectMemoryInstruction (memoryInstructions_of True) ''k'' ''LocalRead'' (1/8)
          ''None'' False False [4]) =
     Inl (RuntimeError
            ''Could not find valid memory instruction for operation=%s, width=%f, kernel=%s''
            [S ''LocalRead'', F (1/8), S ''k''])"
  using selectMemoryInstruction_sound [OF local_read_catalog, of "''k''" 2 "''Coalesced''" True False "[3]"]
    selectMemoryInstruction_sound [OF local_read_catalog, of "''k''" "1/8" "''None''" False False "[4]"]
    select_example select_example2
  by blast

section \<open>Properties of StoreState\<close>

lemma StoreState_flags_exclusive:
  "StoreState_flags kern edge atomic = (single, shared, srdInc, sharedMask) \<Longrightarrow>
   \<not> (single \<noteq> 0 \<and> shared \<noteq> 0) \<and> (edge \<or> atomic \<longrightarrow> single = 0 \<and> shared = 0)"
  by (auto simp: StoreState_flags_def Let_def split: if_splits)

text \<open>
  Claim C7.  In every \<open>StoreState\<close> that the constructor returns, at most one of
  \<open>optSingleColVgpr\<close> and \<open>optSharedColVgpr\<close> is set; and for an edge batch or with
  atomics both are zero, no address register is shared and \<open>sharedColVgprs\<close> is
  \<open>None\<close>, which is the fully independent addressing of each element.
\<close>

theorem StoreState_init_exclusive:
  assumes "fst (StoreState_init kernelWriter kern gw edge beta atomic elements) = Inr ss"
  shows "\<not> (optSingleColVgpr ss \<noteq> 0 \<and> optSharedColVgpr ss \<noteq> 0) \<and>
     (edge \<or> atomic \<longrightarrow>
        optSingleColVgpr ss = 0 \<and> optSharedColVgpr ss = 0 \<and>
        numAddrVgpr ss = 0 \<and> sharedColVgprs ss = None)"
proof -
  obtain single shared srdInc sharedMask
    where fl: "StoreState_flags kern edge atomic = (single, shared, srdInc, sharedMask)"
    by (cases "StoreState_flags kern edge atomic") auto
  note ex = StoreState_flags_exclusive [OF fl]
  from assms fl have flags: "optSingleColVgpr ss = single \<and> optSharedColVgpr ss = shared"
    by (auto simp: StoreState_init_def Let_def split: if_splits prod.splits sum.splits)
  from assms fl ex have "edge \<or> atomic \<longrightarrow> numAddrVgpr ss = 0 \<and> sharedColVgprs ss = None"
    by (auto simp: StoreState_init_def Let_def split: if_splits prod.splits sum.splits)
  with ex flags show ?thesis by simp
qed

text \<open>
  For an edge batch or with atomics the constructor returns whenever the constructor of
  the configuration does: its own assertion holds and nothing is checked out.
\<close>

lemma StoreState_init_assert_never_fails:
  "StoreConstConfig_init kernelWriter kern
      (fst (StoreState_flags kern edge atomic))
      (snd (snd (snd (StoreState_flags kern edge atomic)))) gw edge beta atomic = (Inr c, kw1) \<Longrightarrow>
   edge \<or> atomic \<Longrightarrow>
   \<exists>ss. StoreState_init kernelWriter kern gw edge beta atomic elements = (Inr ss, kw1, [])"
proof -
  assume c: "StoreConstConfig_init kernelWriter kern
      (fst (StoreState_flags kern edge atomic))
      (snd (snd (snd (StoreState_flags kern edge atomic)))) gw edge beta atomic = (Inr c, kw1)"
    and ea: "edge \<or> atomic"
  obtain single shared srdInc sharedMask
    where fl: "StoreState_flags kern edge atomic = (single, shared, srdInc, sharedMask)"
    by (cases "StoreState_flags kern edge atomic") auto
  from StoreState_flags_exclusive [OF fl] ea have z: "single = 0" "shared = 0" by simp_all
  from c fl z show ?thesis by (simp add: StoreState_init_def Let_def)
qed

text \<open>
  An edge batch, a plain batch and a batch with packed indices on a writer whose pool of
  vector registers has free slots; and two calls in which the constructor raises: the
  checkout of zero registers when no element of a packed batch lies in the first row, and
  the assertion of the configuration for a serialized store without matrix instructions.
\<close>

lemma StoreState_edge_example: "fst (StoreState_init writer0 plain_kernel 1 True False False [(0, 0, 0, 0), (0, 1, 0, 0)]) =
  Inr \<lparr> optSingleColVgpr = 0, optSharedColVgpr = 0, optSrdIncForRow = 0, optSharedMask = False,
     cfg = \<lparr> cfg_gwvw = 1, numVgprsPerAddr = 1, numSgprsPerElement = 2, fixedSgprsPerBatch = 6,
       numElementsPerBatchLimitedBySgprs = 38, numVgprsPerDataPerVI = 0, numVgprPerValuC = 0,
       halfDataRegPerVI = True \<rparr>,
     lastCoordOffset1 = 0, coord1Vgpr = 5, numAddrVgpr = 0, sharedColVgprs = None,
     firstBatch = True \<rparr>"
  by code_simp

lemma StoreState_plain_example: "fst (StoreState_init writer0 plain_kernel 1 False False False [(0, 0, 0, 0), (0, 1, 0, 0)]) =
  Inr \<lparr> optSingleColVgpr = 1, optSharedColVgpr = 0, optSrdIncForRow = 1, optSharedMask = True,
     cfg = \<lparr> cfg_gwvw = 1, numVgprsPerAddr = 0, numSgprsPerElement = 0, fixedSgprsPerBatch = 2,
       numElementsPerBatchLimitedBySgprs = 9999, numVgprsPerDataPerVI = 0, numVgprPerValuC = 0,
       halfDataRegPerVI = True \<rparr>,
     lastCoordOffset1 = 0, coord1Vgpr = 5, numAddrVgpr = 1, sharedColVgprs = Some 0,
     firstBatch = True \<rparr>"
  by code_simp

lemma StoreState_packed_example: "fst (StoreState_init writer0 packed_kernel 1 False False False [(0, 0, 0, 0), (0, 1, 0, 0)]) =
  Inr \<lparr> optSingleColVgpr = 0, optSharedColVgpr = 1, optSrdIncForRow = 1, optSharedMask = True,
     cfg = \<lparr> cfg_gwvw = 1, numVgprsPerAddr = 1, numSgprsPerElement = 0, fixedSgprsPerBatch = 2,
       numElementsPerBatchLimitedBySgprs = 9999, numVgprsPerDataPerVI = 0, numVgprPerValuC = 0,
       halfDataRegPerVI = True \<rparr>,
     lastCoordOffset1 = 0, coord1Vgpr = 5, numAddrVgpr = 2, sharedColVgprs = Some 2,
     firstBatch = True \<rparr>"
  by code_simp

lemma StoreState_packed_no_column: "fst (StoreState_init writer0 packed_kernel 1 False False False []) = Inl AssertionError"
  by code_simp

lemma StoreState_serialized_assert: "fst (StoreState_init (writer0\<lparr>serializedStore := True\<rparr>) plain_kernel 1 True False False []) = Inl AssertionError"
  by code_simp


text \<open>The claim at the three batches.\<close>

theorem StoreState_init_exclusive_witness:
  "(\<exists>ss. fst (StoreState_init writer0 plain_kernel 1 True False False
              [(0, 0, 0, 0), (0, 1, 0, 0)]) = Inr ss \<and>
      optSingleColVgpr ss = 0 \<and> optSharedColVgpr ss = 0 \<and> numAddrVgpr ss = 0 \<and>
      sharedColVgprs ss = None) \<and>
   (\<exists>ss. fst (StoreState_init writer0 plain_kernel 1 False False False
              [(0, 0, 0, 0), (0, 1, 0, 0)]) = Inr ss \<and>
      optSingleColVgpr ss = 1 \<and> optSharedColVgpr ss = 0 \<and> numAddrVgpr ss = 1 \<and>
      sharedColVgprs ss = Some 0) \<and>
   (\<exists>ss. fst (StoreState_init writer0 packed_kernel 1 False False False
              [(0, 0, 0, 0), (0, 1, 0, 0)]) = Inr ss \<and>
      optSingleColVgpr ss = 0 \<and> optSharedColVgpr ss = 1 \<and> numAddrVgpr ss = 2 \<and>
      sharedColVgprs ss = Some 2)"
proof -
  from StoreState_init_exclusive [OF StoreState_edge_example]
  have "\<exists>ss. fst (StoreState_init writer0 plain_kernel 1 True False False
              [(0, 0, 0, 0), (0, 1, 0, 0)]) = Inr ss \<and>
      optSingleColVgpr ss = 0 \<and> optSharedColVgpr ss = 0 \<and> numAddrVgpr ss = 0 \<and>
      sharedColVgprs ss = None"
    using StoreState_edge_example by blast
  moreover from StoreState_init_exclusive [OF StoreState_plain_example]
  have "\<exists>ss. fst (StoreState_init writer0 plain_kernel 1 False False False
              [(0, 0, 0, 0), (0, 1, 0, 0)]) = Inr ss \<and>
      optSingleColVgpr ss = 1 \<and> optSharedColVgpr ss = 0 \<and> numAddrVgpr ss = 1 \<and>
      sharedColVgprs ss = Some 0"
    unfolding StoreState_plain_example by simp
  moreover from StoreState_init_exclusive [OF StoreState_packed_example]
  have "\<exists>ss. fst (StoreState_init writer0 packed_kernel 1 False False False
              [(0, 0, 0, 0), (0, 1, 0, 0)]) = Inr ss \<and>
      optSingleColVgpr ss = 0 \<and> optSharedColVgpr ss = 1 \<and> numAddrVgpr ss = 2 \<and>
      sharedColVgprs ss = Some 2"
    unfolding StoreState_packed_example by simp
  ultimately show ?thesis by blast
qed

section \<open>Properties of the packing of the stores\<close>

lemma pack_loop_concat:
  "\<forall>vi\<in>set vis. pack_body env vi = Inr (g vi) \<Longrightarrow>
   pack_loop env vis kStr = Inr (kStr @ concat (map g vis))"
  by (induction vis arbitrary: kStr) auto

lemma concat_blocks:
  "\<forall>x\<in>set xs. length (g x) = m \<Longrightarrow> i < length xs \<Longrightarrow>
   take m (drop (m * i) (concat (map g xs))) = g (xs ! i)"
proof (induction xs arbitrary: i)
  case Nil
  then show ?case by simp
next
  case (Cons x xs)
  show ?case
  proof (cases i)
    case 0
    with Cons.prems show ?thesis by simp
  next
    case (Suc j)
    with Cons.prems have "take m (drop (m * j) (concat (map g xs))) = g (xs ! j)"
      by (intro Cons.IH) auto
    moreover from Cons.prems have "length (g x) = m" by simp
    ultimately show ?thesis using Suc by (simp add: drop_append [of "m + m * j"] add.commute)
  qed
qed

lemma length_concat_blocks:
  "\<forall>x\<in>set xs. length (g x) = m \<Longrightarrow> length (concat (map g xs)) = m * length xs"
  by (induction xs) auto

lemma pack_body_bf16:
  assumes "DestDataType env = BFloat16"
  shows "\<exists>k. pack_body env vi = Inr k \<and> length k = 5 \<and>
     is_self_compare (k ! 0) \<and> opcode (k ! 1) = ''v_bfe_u32'' \<and>
     opcode (k ! 2) = ''v_add3_u32'' \<and> opcode (k ! 3) = ''v_cndmask_b32'' \<and>
     is_final (k ! 4) \<and>
     count_op ''v_cmp_u_f32'' k = 1 \<and> count_op ''v_add3_u32'' k = 1 \<and>
     count_op ''v_cndmask_b32'' k = 1"
proof (cases "vi mod 2 = 0")
  case True
  with assms show ?thesis
    by (simp add: pack_body_def Let_def inst_def is_self_compare_def is_final_def count_op_def)
next
  case False
  then have "vi mod 2 = 1" by presburger
  with assms show ?thesis
    by (simp add: pack_body_def Let_def inst_def is_self_compare_def is_final_def count_op_def)
qed

text \<open>
  Claim C9.  With a bfloat16 destination and high-precision accumulation the packing loop
  emits, for every component \<open>vi\<close> of the vector, a block of five instructions: the
  self-compare comes first, the rounding add is third, the conditional select is fourth
  and the truncating shift by 16 or the pack is last; the block holds exactly one
  self-compare, one rounding add and one conditional select.
\<close>

theorem bf16_narrowing_sequence:
  assumes "DestDataType env = BFloat16" and "HighPrecisionAccumulate env"
    and "GlobalAccumulation env \<noteq> ''MultipleBuffer''"
  shows "\<exists>kStr. pack_stores env = Inr kStr \<and> length kStr = 5 * gwvw env \<and>
     (\<forall>vi < gwvw env. \<exists>k. k = take 5 (drop (5 * vi) kStr) \<and>
        pack_body env vi = Inr k \<and>
        is_self_compare (k ! 0) \<and> opcode (k ! 2) = ''v_add3_u32'' \<and>
        opcode (k ! 3) = ''v_cndmask_b32'' \<and> is_final (k ! 4) \<and>
        count_op ''v_cmp_u_f32'' k = 1 \<and> count_op ''v_add3_u32'' k = 1 \<and>
        count_op ''v_cndmask_b32'' k = 1)"
proof -
  define g where "g vi = projr (pack_body env vi)" for vi
  have body: "pack_body env vi = Inr (g vi) \<and> length (g vi) = 5 \<and>
     is_self_compare (g vi ! 0) \<and> opcode (g vi ! 2) = ''v_add3_u32'' \<and>
     opcode (g vi ! 3) = ''v_cndmask_b32'' \<and> is_final (g vi ! 4) \<and>
     count_op ''v_cmp_u_f32'' (g vi) = 1 \<and> count_op ''v_add3_u32'' (g vi) = 1 \<and>
     count_op ''v_cndmask_b32'' (g vi) = 1" for vi
    using pack_body_bf16 [OF assms(1), of vi] unfolding g_def by auto
  let ?k = "concat (map g [0 ..< gwvw env])"
  from body have "pack_loop env [0 ..< gwvw env] [] = Inr ([] @ ?k)"
    by (intro pack_loop_concat) simp
  with assms have ps: "pack_stores env = Inr ?k" by (simp add: pack_stores_def)
  from body have len: "length ?k = 5 * gwvw env"
    using length_concat_blocks [of "[0 ..< gwvw env]" g 5] by simp
  have "\<exists>k. k = take 5 (drop (5 * vi) ?k) \<and>
        pack_body env vi = Inr k \<and>
        is_self_compare (k ! 0) \<and> opcode (k ! 2) = ''v_add3_u32'' \<and>
        opcode (k ! 3) = ''v_cndmask_b32'' \<and> is_final (k ! 4) \<and>
        count_op ''v_cmp_u_f32'' k = 1 \<and> count_op ''v_add3_u32'' k = 1 \<and>
        count_op ''v_cndmask_b32'' k = 1" if "vi < gwvw env" for vi
  proof -
    from body that have "take 5 (drop (5 * vi) ?k) = g ([0 ..< gwvw env] ! vi)"
      by (intro concat_blocks) simp_all
    with that have "take 5 (drop (5 * vi) ?k) = g vi" by simp
    with body [of vi] show ?thesis by simp
  qed
  with ps len show ?thesis by blast
qed

text \<open>The emitted sequence for a vector of two components.\<close>

theorem bf16_narrowing_sequence_witness:
  "pack_stores bf16_env = Inr
     [Inst ''v_cmp_u_f32'' [sgpr (Num 40) 2, vgpr (Sym ''ValuC'' 8), vgpr (Sym ''ValuC'' 8)]
        ''check Nan'',
      Inst ''v_bfe_u32'' [vgpr (Num 20), vgpr (Sym ''ValuC'' 8), lit ''16'', lit ''1'']
        ''Non-Nan case: store lsb of bf16'',
      Inst ''v_add3_u32'' [vgpr (Num 20), vgpr (Sym ''ValuC'' 8), vgpr (Num 20), vgpr (Num 21)]
        ''Non-Nan case: add lsb and the increment for rounding'',
      Inst ''v_cndmask_b32'' [vgpr (Sym ''ValuC'' 8), vgpr (Num 20), vgpr (Num 22), sgpr (Num 40) 2]
        '''',
      Inst ''v_lshrrev_b32'' [vgpr (Sym ''ValuC'' 8), lit ''16'', vgpr (Sym ''ValuC'' 8)]
        ''convert C to bf16'',
      Inst ''v_cmp_u_f32'' [sgpr (Num 40) 2, vgpr (Sym ''ValuC'' 9), vgpr (Sym ''ValuC'' 9)]
        ''check Nan'',
      Inst ''v_bfe_u32'' [vgpr (Num 20), vgpr (Sym ''ValuC'' 9), lit ''16'', lit ''1'']
        ''Non-Nan case: store lsb of bf16'',
      Inst ''v_add3_u32'' [vgpr (Num 20), vgpr (Sym ''ValuC'' 9), vgpr (Num 20), vgpr (Num 21)]
        ''Non-Nan case: add lsb and the increment for rounding'',
      Inst ''v_cndmask_b32'' [vgpr (Sym ''ValuC'' 9), vgpr (Num 20), vgpr (Num 22), sgpr (Num 40) 2]
        '''',
      Inst ''v_and_or_b32'' [vgpr (Num 8), vgpr (Sym ''ValuC'' 9), vgpr (Num 23),
         vgpr (Sym ''ValuC'' 8)] ''pack two bf16 to dword''] \<and>
   (\<exists>kStr. pack_stores bf16_env = Inr kStr \<and> length kStr = 10 \<and>
      is_self_compare (take 5 (drop 5 kStr) ! 0) \<and> is_final (take 5 (drop 5 kStr) ! 4))"
proof -
  have h: "DestDataType bf16_env = BFloat16" "HighPrecisionAccumulate bf16_env"
    "GlobalAccumulation bf16_env \<noteq> ''MultipleBuffer''" "(1::nat) < gwvw bf16_env"
    "gwvw bf16_env = 2"
    by (simp_all add: bf16_env_def)
  from bf16_narrowing_sequence [OF h(1,2,3)] obtain kStr where k:
    "pack_stores bf16_env = Inr kStr" "length kStr = 5 * gwvw bf16_env"
    "\<forall>vi < gwvw bf16_env. \<exists>k. k = take 5 (drop (5 * vi) kStr) \<and>
        pack_body bf16_env vi = Inr k \<and>
        is_self_compare (k ! 0) \<and> opcode (k ! 2) = ''v_add3_u32'' \<and>
        opcode (k ! 3) = ''v_cndmask_b32'' \<and> is_final (k ! 4) \<and>
        count_op ''v_cmp_u_f32'' k = 1 \<and> count_op ''v_add3_u32'' k = 1 \<and>
        count_op ''v_cndmask_b32'' k = 1" by blast
  from k(3) h(4) have "is_self_compare (take 5 (drop (5 * 1) kStr) ! 0) \<and>
     is_final (take 5 (drop (5 * 1) kStr) ! 4)" by blast
  with k(1,2) h(5) have "\<exists>kStr. pack_stores bf16_env = Inr kStr \<and> length kStr = 10 \<and>
      is_self_compare (take 5 (drop 5 kStr) ! 0) \<and> is_final (take 5 (drop 5 kStr) ! 4)"
    by (intro exI [of _ kStr]) simp
  moreover have "pack_stores bf16_env = Inr
     [Inst ''v_cmp_u_f32'' [sgpr (Num 40) 2, vgpr (Sym ''ValuC'' 8), vgpr (Sym ''ValuC'' 8)]
        ''check Nan'',
      Inst ''v_bfe_u32'' [vgpr (Num 20), vgpr (Sym ''ValuC'' 8), lit ''16'', lit ''1'']
        ''Non-Nan case: store lsb of bf16'',
      Inst ''v_add3_u32'' [vgpr (Num 20), vgpr (Sym ''ValuC'' 8), vgpr (Num 20), vgpr (Num 21)]
        ''Non-Nan case: add lsb and the increment for rounding'',
      Inst ''v_cndmask_b32'' [vgpr (Sym ''ValuC'' 8), vgpr (Num 20), vgpr (Num 22), sgpr (Num 40) 2]
        '''',
      Inst ''v_lshrrev_b32'' [vgpr (Sym ''ValuC'' 8), lit ''16'', vgpr (Sym ''ValuC'' 8)]
        ''convert C to bf16'',
      Inst ''v_cmp_u_f32'' [sgpr (Num 40) 2, vgpr (Sym ''ValuC'' 9), vgpr (Sym ''ValuC'' 9)]
        ''check Nan'',
      Inst ''v_bfe_u32'' [vgpr (Num 20), vgpr (Sym ''ValuC'' 9), lit ''16'', lit ''1'']
        ''Non-Nan case: store lsb of bf16'',
      Inst ''v_add3_u32'' [vgpr (Num 20), vgpr (Sym ''ValuC'' 9), vgpr (Num 20), vgpr (Num 21)]
        ''Non-Nan case: add lsb and the increment for rounding'',
      Inst ''v_cndmask_b32'' [vgpr (Sym ''ValuC'' 9), vgpr (Num 20), vgpr (Num 22), sgpr (Num 40) 2]
        '''',
      Inst ''v_and_or_b32'' [vgpr (Num 8), vgpr (Sym ''ValuC'' 9), vgpr (Num 23),
         vgpr (Sym ''ValuC'' 8)] ''pack two bf16 to dword'']"
    by code_simp
  ultimately show ?thesis by blast
qed

section \<open>Properties of the magic division\<close>

text \<open>
  Multiplying by a rounded-up reciprocal and shifting divides exactly as long as the
  dividend times the rounding error of the multiplier stays below the power of two.
\<close>

lemma magic_div_exact:
  fixes n m K d :: nat
  assumes n: "0 < n" and lo: "2 ^ K \<le> n * m" and err: "d * (n * m - 2 ^ K) < 2 ^ K"
  shows "(d * m) div 2 ^ K = d div n"
proof -
  define e where "e = n * m - 2 ^ K"
  define q where "q = d div n"
  from lo have nm: "n * m = 2 ^ K + e" by (simp add: e_def)
  have prod: "n * (d * m) = d * 2 ^ K + d * e"
  proof -
    have "n * (d * m) = d * (n * m)" by (simp add: mult.left_commute)
    also have "\<dots> = d * 2 ^ K + d * e" by (simp add: nm distrib_left)
    finally show ?thesis .
  qed
  have "q * n \<le> d" by (simp add: q_def)
  then have "(q * n) * 2 ^ K \<le> d * 2 ^ K" by (rule mult_le_mono1)
  also have "\<dots> \<le> n * (d * m)" by (simp add: prod)
  finally have "n * (q * 2 ^ K) \<le> n * (d * m)" by (simp add: mult.assoc mult.left_commute mult.commute)
  with n have lower: "q * 2 ^ K \<le> d * m" by simp
  from n have "d < n + q * n" unfolding q_def by (rule dividend_less_div_times)
  then have "d + 1 \<le> (q + 1) * n" by simp
  then have le: "(d + 1) * 2 ^ K \<le> ((q + 1) * n) * 2 ^ K" by (rule mult_le_mono1)
  from err have "d * 2 ^ K + d * e < d * 2 ^ K + 2 ^ K" by (simp add: e_def)
  also have "\<dots> = (d + 1) * 2 ^ K" by simp
  also note le
  finally have "d * 2 ^ K + d * e < ((q + 1) * n) * 2 ^ K" .
  moreover have "((q + 1) * n) * 2 ^ K = n * ((q + 1) * 2 ^ K)"
    by (simp only: mult.assoc mult.left_commute mult.commute)
  ultimately have "n * (d * m) < n * ((q + 1) * 2 ^ K)" by (simp only: prod)
  then have upper: "d * m < (q + 1) * 2 ^ K" by (simp only: mult_less_cancel1)
  have "(d * m) div 2 ^ K = q"
  proof (rule div_nat_eqI)
    from lower show "2 ^ K * q \<le> d * m" by (simp add: mult.commute)
    from upper show "d * m < 2 ^ K * Suc q" by (simp add: mult.commute)
  qed
  then show ?thesis by (simp add: q_def)
qed

text \<open>The instructions, read as natural numbers.\<close>

lemma unat_s_mul_hi_u32: "unat (s_mul_hi_u32 a b) = unat a * unat b div 2 ^ 32"
proof -
  have a: "unat a < 2 ^ 32" and b: "unat b < 2 ^ 32"
    using unsigned_less [of a] unsigned_less [of b] by simp_all
  then have "unat a * unat b < 2 ^ 32 * 2 ^ 32"
    by (intro mult_strict_mono) simp_all
  then have "unat a * unat b div 2 ^ 32 < 2 ^ 32"
    by (intro less_mult_imp_div_less) simp
  then show ?thesis by (simp add: s_mul_hi_u32_def unat_of_nat)
qed

lemma unat_v_mul_hi_u32: "unat (v_mul_hi_u32 a b) = unat a * unat b div 2 ^ 32"
  using unat_s_mul_hi_u32 [of a b] by (simp add: v_mul_hi_u32_def s_mul_hi_u32_def)

lemma unat_v_mul_lo_u32: "unat (v_mul_lo_u32 a b) = unat a * unat b mod 2 ^ 32"
  by (simp add: v_mul_lo_u32_def unat_word_ariths)

lemma unat_s_mul_i32: "unat (s_mul_i32 a b) = unat a * unat b mod 2 ^ 32"
  by (simp add: s_mul_i32_def unat_word_ariths)

lemma unat_s_add_u32: "unat (s_add_u32 a b) = (unat a + unat b) mod 2 ^ 32"
  by (simp add: s_add_u32_def unat_word_ariths)

lemma and_31: "(w :: u32) AND 31 = take_bit 5 w"
  by (simp add: take_bit_eq_mask mask_eq_exp_minus_1)

lemma and_63: "(w :: u32) AND 63 = take_bit 6 w"
  by (simp add: take_bit_eq_mask mask_eq_exp_minus_1)

lemma and_7fffffff: "(w :: u32) AND 0x7fffffff = take_bit 31 w"
  by (simp add: take_bit_eq_mask mask_eq_exp_minus_1)

lemma unat_s_lshr_b32: "unat (s_lshr_b32 a b) = unat a div 2 ^ (unat b mod 32)"
  unfolding s_lshr_b32_def and_31 unat_drop_bit_eq unsigned_take_bit_eq
  by (simp add: drop_bit_eq_div take_bit_eq_mod)

lemma unat_s_lshr_b64: "unat (s_lshr_b64 a b) = unat a div 2 ^ (unat b mod 64)"
  unfolding s_lshr_b64_def and_63 unat_drop_bit_eq unsigned_take_bit_eq
  by (simp add: drop_bit_eq_div take_bit_eq_mod)

lemma unat_s_and_b32_7fffffff: "unat (s_and_b32 a 0x7fffffff) = unat a mod 2 ^ 31"
  unfolding s_and_b32_def and_7fffffff unsigned_take_bit_eq
  by (simp add: take_bit_eq_mod)

lemma unat_word_cat_32: "unat (word_cat (hi :: u32) (lo :: u32) :: u64) = unat hi * 2 ^ 32 + unat lo"
proof -
  have "unat hi < 2 ^ 32" using unsigned_less [of hi] by simp
  then have h: "unat hi * 2 ^ 32 < 2 ^ 64" by simp
  have l: "unat lo < 2 ^ 32" using unsigned_less [of lo] by simp
  have "unat (push_bit 32 (ucast hi :: u64)) = take_bit 64 (push_bit 32 (take_bit 64 (unat hi)))"
    by (simp only: unsigned_push_bit_eq unsigned_ucast_eq len_num1 len_bit0 mult_numeral_left_semiring_numeral)
      simp
  then have "unat (push_bit 32 (ucast hi :: u64)) = unat hi * 2 ^ 32"
    using h \<open>unat hi < 2 ^ 32\<close> by (simp add: take_bit_eq_mod push_bit_eq_mult)
  moreover have "unat (ucast lo :: u64) = take_bit 64 (unat lo)"
    by (simp only: unsigned_ucast_eq) simp
  then have "unat (ucast lo :: u64) = unat lo"
    using l by (simp add: take_bit_eq_mod)
  moreover from \<open>unat hi < 2 ^ 32\<close> l have "unat hi * 2 ^ 32 + unat lo < 2 ^ 64" by simp
  ultimately show ?thesis
    by (simp add: word_cat_eq unat_word_ariths)
qed


lemma unat_magicShiftAbit_of:
  assumes "s < 32" "abit \<le> 1"
  shows "unat (magicShiftAbit_of s abit) = s + abit * 2 ^ 31"
proof -
  from assms have "s + abit * 2 ^ 31 < (2::nat) ^ 32"
    by (cases "abit = 0") (simp_all add: le_Suc_eq)
  then show ?thesis unfolding magicShiftAbit_of_def unat_of_nat by simp
qed

lemma sMagicDivAlg2_unat:
  assumes s: "s < 32" and abit: "abit \<le> 1"
  shows "unat (sMagicDivAlg2 d M (magicShiftAbit_of s abit)) =
     ((unat d * abit + unat d * unat M div 2 ^ 32) mod 2 ^ 32) div 2 ^ s"
proof -
  let ?msa = "magicShiftAbit_of s abit"
  from s have s31: "s < (2::nat) ^ 31" by simp
  have msa: "unat ?msa = s + abit * 2 ^ 31" using assms by (rule unat_magicShiftAbit_of)
  have t1: "unat (s_lshr_b32 ?msa 31) = abit"
    using s31 by (simp add: unat_s_lshr_b32 msa)
  have t2: "unat (s_and_b32 ?msa 0x7fffffff) = s"
    using s31 by (simp add: unat_s_and_b32_7fffffff msa)
  have "unat (s_add_u32 (s_mul_i32 d (s_lshr_b32 ?msa 31)) (s_mul_hi_u32 d M)) =
      (unat d * abit + unat d * unat M div 2 ^ 32) mod 2 ^ 32"
    by (simp add: unat_s_add_u32 unat_s_mul_i32 unat_s_mul_hi_u32 t1 mod_add_left_eq)
  then show ?thesis
    using s by (simp add: sMagicDivAlg2_def Let_def unat_s_lshr_b32 t2)
qed

lemma sMagicDivAlg2_exact:
  assumes ok: "magic_triple_ok n M s abit"
    and nowrap: "abit = 0 \<or> unat d + unat d * M div 2 ^ 32 < 2 ^ 32"
  shows "unat (sMagicDivAlg2 d (of_nat M) (magicShiftAbit_of s abit)) = unat d div n"
proof -
  from ok have n: "0 < n" and M: "M < 2 ^ 32" and s: "s < 32" and abit: "abit \<le> 1"
    and lo: "2 ^ (32 + s) \<le> n * (M + abit * 2 ^ 32)"
    and hi: "n * (M + abit * 2 ^ 32) \<le> 2 ^ (32 + s) + 2 ^ s"
    by (simp_all add: magic_triple_ok_def)
  let ?d = "unat d"
  have d: "?d < 2 ^ 32" using unsigned_less [of d] by simp
  from M have uM: "unat (of_nat M :: u32) = M" by (simp add: unat_of_nat)
  have hi32: "?d * M div 2 ^ 32 < 2 ^ 32"
  proof -
    from d M have "?d * M < 2 ^ 32 * 2 ^ 32" by (intro mult_strict_mono) simp_all
    then show ?thesis by (intro less_mult_imp_div_less) simp
  qed
  have fits: "?d * abit + ?d * M div 2 ^ 32 < 2 ^ 32"
  proof (cases "abit = 0")
    case True
    with hi32 show ?thesis by simp
  next
    case False
    with abit have "abit = 1" by simp
    with nowrap show ?thesis by simp
  qed
  have "unat (sMagicDivAlg2 d (of_nat M) (magicShiftAbit_of s abit)) =
      (?d * abit + ?d * M div 2 ^ 32) div 2 ^ s"
    using fits by (simp add: sMagicDivAlg2_unat [OF s abit] uM)
  also have "?d * abit + ?d * M div 2 ^ 32 = (?d * (M + abit * 2 ^ 32)) div 2 ^ 32"
    by (simp add: distrib_left mult.assoc [symmetric])
  also have "(?d * (M + abit * 2 ^ 32)) div 2 ^ 32 div 2 ^ s =
      (?d * (M + abit * 2 ^ 32)) div 2 ^ (32 + s)"
    by (simp add: div_mult2_eq power_add)
  also have "\<dots> = ?d div n"
  proof (rule magic_div_exact [OF n lo])
    from hi have e: "n * (M + abit * 2 ^ 32) - 2 ^ (32 + s) \<le> 2 ^ s" by simp
    then have "?d * (n * (M + abit * 2 ^ 32) - 2 ^ (32 + s)) \<le> ?d * 2 ^ s"
      by (rule mult_le_mono2)
    also from d have "?d * 2 ^ s < 2 ^ 32 * 2 ^ s" by simp
    finally show "?d * (n * (M + abit * 2 ^ 32) - 2 ^ (32 + s)) < 2 ^ (32 + s)"
      by (simp add: power_add)
  qed
  finally show ?thesis .
qed

lemma s_mul_u64_u32_unat:
  "s_mul_u64_u32 h a b = (lo, hi) \<Longrightarrow> unat hi * 2 ^ 32 + unat lo = unat a * unat b"
proof -
  assume a: "s_mul_u64_u32 h a b = (lo, hi)"
  have "unat hi = unat a * unat b div 2 ^ 32 \<and> unat lo = unat a * unat b mod 2 ^ 32"
  proof (cases h)
    case True
    with a show ?thesis
      by (auto simp: s_mul_u64_u32_def Let_def unat_s_mul_hi_u32 unat_s_mul_i32)
  next
    case False
    with a show ?thesis
      by (auto simp: s_mul_u64_u32_def Let_def unat_v_mul_hi_u32 unat_v_mul_lo_u32
            mult.commute)
  qed
  then show ?thesis by simp
qed

lemma sMagicDiv_exact:
  assumes n: "0 < n" and M: "M < 2 ^ 32" and s: "s < 64" and lo: "2 ^ s \<le> n * M"
    and err: "unat d * (n * M - 2 ^ s) < 2 ^ s"
  shows "unat (sMagicDiv h d (of_nat M) (of_nat s)) = unat d div n"
proof -
  let ?d = "unat d"
  have d: "?d < 2 ^ 32" using unsigned_less [of d] by simp
  from M have uM: "unat (of_nat M :: u32) = M" by (simp add: unat_of_nat)
  from s have us: "unat (of_nat s :: u32) = s" by (simp add: unat_of_nat)
  obtain dest0 dest1 where p: "s_mul_u64_u32 h d (of_nat M) = (dest0, dest1)"
    by (cases "s_mul_u64_u32 h d (of_nat M)") auto
  from s_mul_u64_u32_unat [OF p] uM
  have cat: "unat (word_cat dest1 dest0 :: u64) = ?d * M" by (simp add: unat_word_cat_32)
  have "unat (s_lshr_b64 (word_cat dest1 dest0) (of_nat s)) = ?d * M div 2 ^ s"
    using s by (simp add: unat_s_lshr_b64 cat us)
  also have "\<dots> = ?d div n" using n lo err by (rule magic_div_exact)
  finally have sh: "unat (s_lshr_b64 (word_cat dest1 dest0) (of_nat s)) = ?d div n" .
  have small: "?d div n < 2 ^ 32" by (rule le_less_trans [OF div_le_dividend d])
  have "unat (ucast (s_lshr_b64 (word_cat dest1 dest0) (of_nat s)) :: u32) =
      take_bit 32 (unat (s_lshr_b64 (word_cat dest1 dest0) (of_nat s)))"
    by (simp only: unsigned_ucast_eq) simp
  with sh small have "unat (ucast (s_lshr_b64 (word_cat dest1 dest0) (of_nat s)) :: u32) = ?d div n"
    by (simp add: take_bit_eq_mod)
  with p show ?thesis by (simp add: sMagicDiv_def Let_def)
qed

text \<open>Dividends below \<open>2 ^ 31\<close> never wrap.\<close>

lemma sMagicDivAlg2_exact_below_2_31:
  assumes "magic_triple_ok n M s abit" and "unat d < 2 ^ 31"
  shows "unat (sMagicDivAlg2 d (of_nat M) (magicShiftAbit_of s abit)) = unat d div n"
proof -
  from assms(1) have M: "M < 2 ^ 32" by (simp add: magic_triple_ok_def)
  have "unat d * M div 2 ^ 32 \<le> unat d"
  proof -
    from M have "unat d * M \<le> unat d * 2 ^ 32" by (intro mult_le_mono2) simp
    then have "unat d * M div 2 ^ 32 \<le> unat d * 2 ^ 32 div 2 ^ 32" by (rule div_le_mono)
    then show ?thesis by simp
  qed
  with assms(2) have "unat d + unat d * M div 2 ^ 32 < 2 ^ 32" by simp
  with assms(1) show ?thesis by (simp add: sMagicDivAlg2_exact)
qed

text \<open>
  The constants that the writer computes for the work-group mapping are exact while the
  dividend times the divisor stays below \<open>2 ^ 31\<close>, and not for every dividend: at the
  divisor 3 the dividend \<open>2 ^ 31\<close> gives one more than the quotient.
\<close>

lemma sMagicDiv_Wgm_exact:
  assumes n: "0 < absWgm" and small: "unat d * absWgm < 2 ^ 31"
  shows "unat (sMagicDiv h d (of_nat (magicNumberWgm absWgm)) (of_nat smallNumMagicShift)) =
     unat d div absWgm"
proof -
  let ?M = "magicNumberWgm absWgm"
  have M: "?M < 2 ^ 32"
  proof -
    have "(2147483648::nat) div absWgm \<le> 2147483648" by (rule div_le_dividend)
    then have "(2147483648::nat) div absWgm < 4294967295" by linarith
    then show ?thesis by (simp add: magicNumberWgm_def smallNumMagicShift_def)
  qed
  have nm: "absWgm * ?M = absWgm * (2 ^ 31 div absWgm) + absWgm"
    by (simp add: magicNumberWgm_def smallNumMagicShift_def)
  have split: "absWgm * (2 ^ 31 div absWgm) + 2 ^ 31 mod absWgm = (2::nat) ^ 31" by simp
  from n have r: "(2::nat) ^ 31 mod absWgm < absWgm" by simp
  from nm split r have lo: "2 ^ 31 \<le> absWgm * ?M" by linarith
  from nm split have "absWgm * ?M - 2 ^ 31 \<le> absWgm" by linarith
  then have "unat d * (absWgm * ?M - 2 ^ 31) \<le> unat d * absWgm" by (rule mult_le_mono2)
  from this small have err: "unat d * (absWgm * ?M - 2 ^ 31) < 2 ^ 31" by (rule le_less_trans)
  have "unat (sMagicDiv h d (of_nat ?M) (of_nat 31)) = unat d div absWgm"
    using n M _ lo err by (rule sMagicDiv_exact) simp
  then show ?thesis by (simp add: smallNumMagicShift_def)
qed

lemma sMagicDiv_Wgm_large_dividend:
  "unat (sMagicDiv True 0x80000000 (of_nat (magicNumberWgm 3)) (of_nat smallNumMagicShift)) =
     715827883 \<and> unat (0x80000000 :: u32) div 3 = 715827882"
proof -
  have "unat (s_lshr_b64 (word_cat (s_mul_hi_u32 0x80000000 (of_nat (magicNumberWgm 3)))
            (s_mul_i32 0x80000000 (of_nat (magicNumberWgm 3)))) (of_nat smallNumMagicShift)) =
        715827883"
    by (simp add: unat_s_lshr_b64 unat_word_cat_32 unat_s_mul_hi_u32 unat_s_mul_i32
          magicNumberWgm_def smallNumMagicShift_def)
  then have "unat (ucast (s_lshr_b64 (word_cat (s_mul_hi_u32 0x80000000 (of_nat (magicNumberWgm 3)))
            (s_mul_i32 0x80000000 (of_nat (magicNumberWgm 3)))) (of_nat smallNumMagicShift)) :: u32) =
        715827883"
    by (simp only: unsigned_ucast_eq) (simp add: take_bit_eq_mod)
  then show ?thesis by (simp add: sMagicDiv_def s_mul_u64_u32_def Let_def)
qed

text \<open>
  Claim C6, as amended.  For a magic triple of the divisor \<open>n\<close>, the sequence of
  \<open>sMagicDivAlg2\<close> leaves the quotient of the dividend by \<open>n\<close> for every 32-bit dividend
  for which the 32-bit sum of the high product and the dividend does not wrap around,
  which is every dividend when the add bit is 0.  With the multiplier and the shift that
  the writer computes for a divisor \<open>absWgm\<close>, the sequence of \<open>sMagicDiv\<close> with the
  64-bit product leaves the quotient of the dividend by \<open>absWgm\<close> for every 32-bit
  dividend whose product with \<open>absWgm\<close> is below \<open>2 ^ 31\<close>.
\<close>

theorem magic_division_exact_without_wrap:
  "(magic_triple_ok n M s abit \<and> (abit = 0 \<or> unat d + unat d * M div 2 ^ 32 < 2 ^ 32) \<longrightarrow>
      unat (sMagicDivAlg2 d (of_nat M) (magicShiftAbit_of s abit)) = unat d div n) \<and>
   (0 < absWgm \<and> unat d * absWgm < 2 ^ 31 \<longrightarrow>
      unat (sMagicDiv HasSMulHi d (of_nat (magicNumberWgm absWgm)) (of_nat smallNumMagicShift)) =
        unat d div absWgm)"
proof (rule conjI; rule impI)
  assume "magic_triple_ok n M s abit \<and> (abit = 0 \<or> unat d + unat d * M div 2 ^ 32 < 2 ^ 32)"
  then show "unat (sMagicDivAlg2 d (of_nat M) (magicShiftAbit_of s abit)) = unat d div n"
    by (simp add: sMagicDivAlg2_exact)
next
  assume "0 < absWgm \<and> unat d * absWgm < 2 ^ 31"
  then show "unat (sMagicDiv HasSMulHi d (of_nat (magicNumberWgm absWgm))
                 (of_nat smallNumMagicShift)) = unat d div absWgm"
    by (simp add: sMagicDiv_Wgm_exact)
qed

text \<open>
  Claim C6 as stated fails, in both sequences.  The triple \<open>(0x24924925, 3, 1)\<close> is a
  magic triple of 7, and for the dividend \<open>0xFFFFFFFF\<close> the sum formed by
  \<^verbatim>\<open>s_add_u32\<close> wraps around: \<open>sMagicDivAlg2\<close> leaves 76695844, the quotient is
  613566756.  With the constants that the writer computes for the divisor 3, \<open>sMagicDiv\<close>
  leaves 715827883 for the dividend \<open>2 ^ 31\<close>, the quotient is 715827882.
\<close>

theorem magic_division_counterexample:
  "magic_triple_ok 7 0x24924925 3 1 \<and>
   unat (sMagicDivAlg2 0xFFFFFFFF (of_nat 0x24924925) (magicShiftAbit_of 3 1)) = 76695844 \<and>
   unat (0xFFFFFFFF :: u32) div 7 = 613566756 \<and>
   unat (sMagicDivAlg2 0xFFFFFFFF (of_nat 0x24924925) (magicShiftAbit_of 3 1)) \<noteq>
     unat (0xFFFFFFFF :: u32) div 7 \<and>
   unat (sMagicDiv True 0x80000000 (of_nat (magicNumberWgm 3)) (of_nat smallNumMagicShift)) =
     715827883 \<and>
   unat (0x80000000 :: u32) div 3 = 715827882 \<and>
   unat (sMagicDiv True 0x80000000 (of_nat (magicNumberWgm 3)) (of_nat smallNumMagicShift)) \<noteq>
     unat (0x80000000 :: u32) div 3"
proof -
  have ok: "magic_triple_ok 7 0x24924925 3 1" by (simp add: magic_triple_ok_def)
  have alg2: "unat (sMagicDivAlg2 0xFFFFFFFF (of_nat 0x24924925) (magicShiftAbit_of 3 1)) =
      76695844"
    by (simp add: sMagicDivAlg2_unat)
  have q7: "unat (0xFFFFFFFF :: u32) div 7 = 613566756" by simp
  note wgm = sMagicDiv_Wgm_large_dividend
  from ok alg2 q7 wgm show ?thesis by (simp only: simp_thms) simp
qed

text \<open>
  The amended claim at the triple of 7 with a small dividend, at a triple of 3 without
  add bit with the largest dividend, and at the writer's constants for the divisor 3.
\<close>

theorem magic_division_exact_without_wrap_witness:
  "magic_triple_ok 7 0x24924925 3 1 \<and>
   unat (sMagicDivAlg2 1000 (of_nat 0x24924925) (magicShiftAbit_of 3 1)) = 142 \<and>
   magic_triple_ok 3 0xAAAAAAAB 1 0 \<and>
   unat (sMagicDivAlg2 0xFFFFFFFF (of_nat 0xAAAAAAAB) (magicShiftAbit_of 1 0)) = 1431655765 \<and>
   unat (1000 :: u32) * 3 < 2 ^ 31 \<and>
   unat (sMagicDiv True 1000 (of_nat (magicNumberWgm 3)) (of_nat smallNumMagicShift)) = 333"
proof -
  have a: "magic_triple_ok 7 0x24924925 3 1" by (simp add: magic_triple_ok_def)
  have a': "(1::nat) = 0 \<or> unat (1000 :: u32) + unat (1000 :: u32) * 0x24924925 div 2 ^ 32 < 2 ^ 32"
    by simp
  have b: "magic_triple_ok 3 0xAAAAAAAB 1 0" by (simp add: magic_triple_ok_def)
  have c: "(0::nat) < 3 \<and> unat (1000 :: u32) * 3 < 2 ^ 31" by simp
  from magic_division_exact_without_wrap [of 7 "0x24924925" 3 1 1000] a a'
  have "unat (sMagicDivAlg2 1000 (of_nat 0x24924925) (magicShiftAbit_of 3 1)) = unat (1000 :: u32) div 7"
    by blast
  moreover from magic_division_exact_without_wrap [of 3 "0xAAAAAAAB" 1 0 "0xFFFFFFFF"] b
  have "unat (sMagicDivAlg2 0xFFFFFFFF (of_nat 0xAAAAAAAB) (magicShiftAbit_of 1 0)) =
      unat (0xFFFFFFFF :: u32) div 3"
    by blast
  moreover from magic_division_exact_without_wrap [of _ _ _ _ 1000 3 True] c
  have "unat (sMagicDiv True 1000 (of_nat (magicNumberWgm 3)) (of_nat smallNumMagicShift)) =
      unat (1000 :: u32) div 3"
    by blast
  ultimately show ?thesis using a b c by simp
qed

section \<open>Properties of the split of the loop iterations\<close>

lemma sum_indicator_below:
  "r \<le> n \<Longrightarrow> (\<Sum>p<n. if p < r then 1 else 0 :: nat) = r"
proof (induction n arbitrary: r)
  case 0
  then show ?case by simp
next
  case (Suc n)
  show ?case
  proof (cases "r \<le> n")
    case True
    with Suc.IH [of r] show ?thesis by simp
  next
    case False
    with Suc.prems have r: "r = Suc n" by simp
    have "(\<Sum>p<n. if p < Suc n then 1 else 0 :: nat) = (\<Sum>p<n. if p < n then 1 else 0)"
      by (rule sum.cong) auto
    with Suc.IH [of n] r show ?thesis by simp
  qed
qed

lemma trip_count_eq:
  assumes n: "1 \<le> n" and n32: "n \<le> 2 ^ 32" and p: "p < n"
  shows "trip_count n iters p = unat iters div n + (if p < unat iters mod n then 1 else 0)"
proof -
  let ?T = "unat iters"
  have T: "?T < 2 ^ 32" using unsigned_less [of iters] by simp
  have q: "unat (of_nat (?T div n) :: u32) = ?T div n"
  proof -
    have "?T div n < 2 ^ 32" by (rule le_less_trans [OF div_le_dividend T])
    then show ?thesis by (simp add: unat_of_nat)
  qed
  have r: "unat (of_nat (?T mod n) :: u32) = ?T mod n"
  proof -
    have "?T mod n < 2 ^ 32" by (rule le_less_trans [OF mod_less_eq_dividend T])
    then show ?thesis by (simp add: unat_of_nat)
  qed
  from p n32 have up: "unat (of_nat p :: u32) = p" by (simp add: unat_of_nat)
  have scc: "s_cmp_lt_u32 (of_nat p) (of_nat (?T mod n)) \<longleftrightarrow> p < ?T mod n"
    by (simp add: s_cmp_lt_u32_def word_less_nat_alt up r)
  show ?thesis
  proof (cases "p < ?T mod n")
    case True
    then have "?T mod n \<noteq> 0" by simp
    then have "n \<noteq> 1" by auto
    with n have "2 \<le> n" by simp
    then have "?T div n \<le> ?T div 2" by (rule div_le_mono2 [rotated]) simp
    with T have "1 + ?T div n < 2 ^ 32" by simp
    then have "unat (s_add_u32 1 (of_nat (?T div n))) = 1 + ?T div n"
      by (simp add: unat_word_ariths s_add_u32_def q)
    with True scc show ?thesis
      by (simp add: trip_count_def calculateLoopNumIterGsu_def Let_def s_mov_b32_def
            scalarStaticDivideAndRemainder_def s_cmov_b32_def)
  next
    case False
    with scc q show ?thesis
      by (simp add: trip_count_def calculateLoopNumIterGsu_def Let_def s_mov_b32_def
            scalarStaticDivideAndRemainder_def s_cmov_b32_def)
  qed
qed

text \<open>
  Claim C5.  For a number of partitions \<open>n\<close> of at least one (with indices that fit a
  32-bit register) and every value of the loop counter, the trip counts that the
  sequence of \<open>calculateLoopNumIterGsu\<close> leaves for the partitions \<open>0, \<dots>, n - 1\<close> add up
  to the value of the loop counter, differ pairwise by at most one, and are the quotient
  plus one exactly for the partitions whose index is below the remainder.
\<close>

theorem split_k_trip_counts:
  assumes n: "1 \<le> n" and n32: "n \<le> 2 ^ 32"
  shows "(\<Sum>p<n. trip_count n iters p) = unat iters \<and>
     (\<forall>p<n. \<forall>p'<n. trip_count n iters p \<le> trip_count n iters p' + 1) \<and>
     (\<forall>p<n. trip_count n iters p =
        unat iters div n + (if p < unat iters mod n then 1 else 0))"
proof -
  let ?T = "unat iters"
  have eq: "trip_count n iters p = ?T div n + (if p < ?T mod n then 1 else 0)" if "p < n" for p
    using n n32 that by (rule trip_count_eq)
  from n have "?T mod n \<le> n" by simp
  have "(\<Sum>p<n. trip_count n iters p) = (\<Sum>p<n. ?T div n + (if p < ?T mod n then 1 else 0))"
    by (rule sum.cong) (simp_all add: eq)
  also have "\<dots> = n * (?T div n) + (\<Sum>p<n. if p < ?T mod n then 1 else 0)"
    by (simp add: sum.distrib)
  also have "\<dots> = n * (?T div n) + ?T mod n"
    using \<open>?T mod n \<le> n\<close> by (simp only: sum_indicator_below)
  also have "\<dots> = ?T" by simp
  finally have total: "(\<Sum>p<n. trip_count n iters p) = ?T" .
  have pair: "\<forall>p<n. \<forall>p'<n. trip_count n iters p \<le> trip_count n iters p' + 1"
    by (simp add: eq)
  from total pair eq show ?thesis by blast
qed

text \<open>Ten iterations split four ways: 3, 3, 2 and 2.\<close>

theorem split_k_trip_counts_witness:
  "(1::nat) \<le> 4 \<and> (4::nat) \<le> 2 ^ 32 \<and>
   (\<Sum>p<4. trip_count 4 10 p) = unat (10 :: u32) \<and>
   trip_count 4 10 0 = 3 \<and> trip_count 4 10 1 = 3 \<and>
   trip_count 4 10 2 = 2 \<and> trip_count 4 10 3 = 2"
proof -
  have h: "(1::nat) \<le> 4" "(4::nat) \<le> 2 ^ 32" by simp_all
  from split_k_trip_counts [OF h, of 10]
  have s: "(\<Sum>p<4. trip_count 4 10 p) = unat (10 :: u32)"
    and e: "\<forall>p<4. trip_count 4 10 p = unat (10 :: u32) div 4 + (if p < unat (10 :: u32) mod 4 then 1 else 0)"
    by blast+
  from e have "trip_count 4 10 0 = 3" "trip_count 4 10 1 = 3" "trip_count 4 10 2 = 2"
    "trip_count 4 10 3 = 2" by simp_all
  with s h show ?thesis by simp
qed

end
